theory Spec2Isabelle
  imports Main "HOL-Library.Word"
begin

unbundle bit_operations_syntax

section \<open>The package transformer of repology (\<^verbatim>\<open>repology/transformer.py\<close>)\<close>

text \<open>
  The module holds one class, \<^verbatim>\<open>PackageTransformer\<close>: its constructor compiles a YAML
  rule document and arranges the rules in packs, \<^verbatim>\<open>MatchRule\<close> and \<^verbatim>\<open>ApplyRule\<close> test
  and apply one rule, \<^verbatim>\<open>Process\<close> runs a package through the packs and
  \<^verbatim>\<open>GetUnmatchedRules\<close> lists the rules that never matched.

  A Python \<^verbatim>\<open>str\<close> is modelled as a \<^typ>\<open>string\<close>, one \<^typ>\<open>char\<close> per code point; the
  model therefore covers the strings whose code points are below 256. Python's unbounded
  integers are \<^typ>\<open>int\<close> (or \<^typ>\<open>nat\<close> where they only count).
\<close>

subsection \<open>Library behaviour the module relies on\<close>

text \<open>
  Exceptions the per-package code can raise. \<open>IndexError\<close> is \<^verbatim>\<open>match.group(N)\<close> with no
  such group; \<open>TemplateError\<close> is what \<^verbatim>\<open>re\<close> raises while it compiles a replacement
  string that contains a backslash (\<^verbatim>\<open>re.error\<close>, or \<^verbatim>\<open>IndexError\<close> for an unknown
  group name); \<open>PatternError\<close> is \<^verbatim>\<open>re.compile\<close> rejecting a pattern.
\<close>

datatype error = IndexError | TemplateError | PatternError

text \<open>
  A match object is the list of its groups: group 0, the whole match, first; a group
  that took no part in the match is \<open>None\<close>. A compiled pattern is its \<^verbatim>\<open>match\<close>
  method, which returns a match object or \<^verbatim>\<open>None\<close>.
\<close>

type_synonym match = "string option list"
type_synonym regex = "string \<Rightarrow> match option"

definition is_digit :: "char \<Rightarrow> bool" where
  "is_digit c = (c \<in> set ''0123456789'')"

definition is_octdigit :: "char \<Rightarrow> bool" where
  "is_octdigit c = (c \<in> set ''01234567'')"

definition is_ascii_letter :: "char \<Rightarrow> bool" where
  "is_ascii_letter c =
     (c \<in> set ''abcdefghijklmnopqrstuvwxyzABCDEFGHIJKLMNOPQRSTUVWXYZ'')"

definition digit_val :: "char \<Rightarrow> nat" where
  "digit_val c = of_char c - 48"

text \<open>\<^verbatim>\<open>int(s)\<close> on a string of ASCII digits, base \<open>b\<close>.\<close>

definition int_of_digits :: "nat \<Rightarrow> string \<Rightarrow> nat" where
  "int_of_digits b ds = foldl (\<lambda>a c. b * a + digit_val c) 0 ds"

text \<open>
  \<^verbatim>\<open>self.dollarN.sub(lambda x: match.group(int(x.group(1))), template)\<close> with
  \<^verbatim>\<open>dollarN = re.compile("\$([0-9]+)", re.ASCII)\<close>: scanning from the left, every \<^verbatim>\<open>$\<close>
  followed by digits (as many as follow) is replaced by the group of that number.
  \<^verbatim>\<open>match.group\<close> raises \<^verbatim>\<open>IndexError\<close> when the pattern has no such group; for a
  group that took no part in the match it returns \<^verbatim>\<open>None\<close>, and \<^verbatim>\<open>sub\<close> then inserts
  nothing.
\<close>

function dollarN_sub :: "match \<Rightarrow> string \<Rightarrow> error + string" where
  "dollarN_sub m [] = Inr []"
| "dollarN_sub m (c # cs) =
     (if c = CHR ''$'' \<and> takeWhile is_digit cs \<noteq> [] then
        (let n = int_of_digits 10 (takeWhile is_digit cs) in
         if n < length m then
           (case dollarN_sub m (dropWhile is_digit cs) of
              Inl e \<Rightarrow> Inl e
            | Inr out \<Rightarrow> Inr ((case m ! n of None \<Rightarrow> [] | Some g \<Rightarrow> g) @ out))
         else Inl IndexError)
      else
        (case dollarN_sub m cs of
           Inl e \<Rightarrow> Inl e
         | Inr out \<Rightarrow> Inr (c # out)))"
  by pat_completeness auto
termination
  by (relation "measure (\<lambda>(m, s). length s)")
     (auto simp: less_Suc_eq_le length_dropWhile_le)

text \<open>
  \<^verbatim>\<open>self.dollar0.sub(repl, template)\<close> with \<^verbatim>\<open>dollar0 = re.compile("\$0", re.ASCII)\<close> and a
  string \<^verbatim>\<open>repl\<close>. A replacement string is itself a template of \<^verbatim>\<open>re\<close>: when it
  contains a backslash, \<^verbatim>\<open>re\<close> compiles it before it searches (CPython's
  \<^verbatim>\<open>parse_template\<close>, here as of CPython 3.12, for a pattern that has no group):
  \<^item> a backslash at the end is an error;
  \<^item> \<^verbatim>\<open>\a \b \f \n \r \t \v \\\<close> stand for one character each;
  \<^item> \<^verbatim>\<open>\g<0>\<close> (any decimal spelling of 0) is the whole match, which is \<^verbatim>\<open>$0\<close>; any
    other \<^verbatim>\<open>\g\<close> is an error (no such group, no such name, or malformed);
  \<^item> \<^verbatim>\<open>\0\<close>, with up to two more octal digits, and a three-digit octal escape up to
    \<^verbatim>\<open>\377\<close> stand for the character of that code; any other backslash-digit is a
    reference to a group the pattern does not have, an error;
  \<^item> a backslash before any other ASCII letter is an error;
  \<^item> a backslash before anything else stays as it is, backslash included.
  \<open>None\<close> is the error.
\<close>

abbreviation backslash :: char where
  "backslash \<equiv> CHR 0x5C"

definition simple_escape :: "char \<Rightarrow> char option" where
  "simple_escape c =
     (if c = CHR ''a'' then Some (CHR 0x07)
      else if c = CHR ''b'' then Some (CHR 0x08)
      else if c = CHR ''f'' then Some (CHR 0x0C)
      else if c = CHR ''n'' then Some (CHR 0x0A)
      else if c = CHR ''r'' then Some (CHR 0x0D)
      else if c = CHR ''t'' then Some (CHR 0x09)
      else if c = CHR ''v'' then Some (CHR 0x0B)
      else if c = backslash then Some backslash
      else None)"

text \<open>
  One escape: the text after the backslash, to the characters it stands for and the
  text that remains.
\<close>

definition parse_escape :: "string \<Rightarrow> (string \<times> string) option" where
  "parse_escape s =
     (case s of
        [] \<Rightarrow> None
      | c # t \<Rightarrow>
          if c = CHR ''g'' then
            (case t of
               [] \<Rightarrow> None
             | b # u \<Rightarrow>
                 let name = takeWhile (\<lambda>x. x \<noteq> CHR ''>'') u;
                     after = dropWhile (\<lambda>x. x \<noteq> CHR ''>'') u
                 in if b = CHR ''<'' \<and> after \<noteq> [] \<and> name \<noteq> [] \<and> list_all is_digit name
                       \<and> int_of_digits 10 name = 0
                    then Some (''$0'', tl after) else None)
          else if c = CHR ''0'' then
            (let ds = takeWhile is_octdigit (take 2 t)
             in Some ([char_of (int_of_digits 8 ds mod 256)], drop (length ds) t))
          else if is_digit c then
            (if list_all is_octdigit (c # take 2 t) \<and> length t \<ge> 2
                \<and> int_of_digits 8 (c # take 2 t) \<le> 255
             then Some ([char_of (int_of_digits 8 (c # take 2 t))], drop 2 t)
             else None)
          else
            (case simple_escape c of
               Some e \<Rightarrow> Some ([e], t)
             | None \<Rightarrow> if is_ascii_letter c then None else Some ([backslash, c], t)))"

lemma length_dropWhile_minus:
  "length (dropWhile P xs) - k \<le> Suc (Suc (length xs))"
  using length_dropWhile_le [of P xs] by arith

lemma parse_escape_rest:
  "parse_escape s = Some (lit, rest) \<Longrightarrow> length rest \<le> length s"
  by (auto simp: parse_escape_def Let_def length_dropWhile_minus le_SucI
           split: list.splits if_splits option.splits)

function parse_template :: "string \<Rightarrow> string option" where
  "parse_template [] = Some []"
| "parse_template (c # cs) =
     (if c = backslash then
        (case parse_escape cs of
           None \<Rightarrow> None
         | Some (lit, rest) \<Rightarrow>
             (case parse_template rest of None \<Rightarrow> None | Some out \<Rightarrow> Some (lit @ out)))
      else
        (case parse_template cs of None \<Rightarrow> None | Some out \<Rightarrow> Some (c # out)))"
  by pat_completeness auto
termination
  by (relation "measure length") (auto simp: less_Suc_eq_le dest: parse_escape_rest)

text \<open>The search itself: every \<^verbatim>\<open>$0\<close> of the template, from the left.\<close>

fun replace_dollar0 :: "string \<Rightarrow> string \<Rightarrow> string" where
  "replace_dollar0 r (c # d # t) =
     (if c = CHR ''$'' \<and> d = CHR ''0'' then r @ replace_dollar0 r t
      else c # replace_dollar0 r (d # t))"
| "replace_dollar0 r s = s"

definition dollar0_sub :: "string \<Rightarrow> string \<Rightarrow> error + string" where
  "dollar0_sub repl template =
     (if backslash \<in> set repl then
        (case parse_template repl of
           None \<Rightarrow> Inl TemplateError
         | Some r \<Rightarrow> Inr (replace_dollar0 r template))
      else Inr (replace_dollar0 repl template))"

text \<open>
  \<^verbatim>\<open>s.replace(old, new)\<close>: every occurrence of \<^verbatim>\<open>old\<close>, from the left, without overlap;
  an empty \<^verbatim>\<open>old\<close> matches before every character and at the end.
\<close>

function str_replace :: "string \<Rightarrow> string \<Rightarrow> string \<Rightarrow> string" where
  "str_replace old new s =
     (if old = [] then new @ concat (map (\<lambda>c. c # new) s)
      else if s = [] then []
      else if take (length old) s = old then new @ str_replace old new (drop (length old) s)
      else hd s # str_replace old new (tl s))"
  by pat_completeness auto
termination
  by (relation "measure (\<lambda>(old, new, s). length s)") auto

declare str_replace.simps [simp del]

text \<open>
  \<^verbatim>\<open>s.lower()\<close> on code points below 256: the ASCII capitals and the Latin-1 capitals
  (\<open>0xC0\<close> to \<open>0xDE\<close> but the multiplication sign \<open>0xD7\<close>) move up by 32.
\<close>

definition lower_char :: "char \<Rightarrow> char" where
  "lower_char c =
     (let n = (of_char c :: nat)
      in if (65 \<le> n \<and> n \<le> 90) \<or> (192 \<le> n \<and> n \<le> 222 \<and> n \<noteq> 215)
         then char_of (n + 32) else c)"

definition lower :: "string \<Rightarrow> string" where
  "lower s = map lower_char s"

text \<open>\<^verbatim>\<open>s.split('.')\<close>: the pieces between the dots; never empty.\<close>

fun split_dot :: "string \<Rightarrow> string list" where
  "split_dot [] = [[]]"
| "split_dot (c # cs) =
     (if c = CHR ''.'' then [] # split_dot cs
      else (c # hd (split_dot cs)) # tl (split_dot cs))"

text \<open>
  Compiled patterns to run the rules on: a backtracking matcher for a fragment of the
  pattern language of \<^verbatim>\<open>re\<close> (a character, the dot, concatenation, alternation, the
  greedy star, a numbered group, the end anchor \<^verbatim>\<open>$\<close>, the empty pattern). \<open>rx_run\<close>
  lists the ways \<open>r\<close> matches at the start of \<open>s\<close>, in the order a backtracking matcher
  tries them, each with the text left over and the groups; \<open>rx_match\<close> is
  \<^verbatim>\<open>pattern.match\<close>, the first of them. The dot matches all but a newline; \<^verbatim>\<open>$\<close> matches
  at the end and before a newline that ends the string; an iteration of a star that
  consumes nothing is not retried, so the fragment is meant for stars over expressions
  that do not match the empty string.
\<close>

datatype rx = Chr char | AnyChar | Cat rx rx | Alt rx rx | Star rx | Group nat rx
  | EndAnchor | Empty

fun rx_run :: "rx \<Rightarrow> string \<Rightarrow> match \<Rightarrow> (string \<times> match) list" where
  "rx_run (Chr c) s g = (case s of [] \<Rightarrow> [] | d # t \<Rightarrow> if d = c then [(t, g)] else [])"
| "rx_run AnyChar s g = (case s of [] \<Rightarrow> [] | d # t \<Rightarrow> if d = CHR 0x0A then [] else [(t, g)])"
| "rx_run Empty s g = [(s, g)]"
| "rx_run EndAnchor s g = (if s = [] \<or> s = [CHR 0x0A] then [(s, g)] else [])"
| "rx_run (Cat a b) s g = concat (map (\<lambda>(t, h). rx_run b t h) (rx_run a s g))"
| "rx_run (Alt a b) s g = rx_run a s g @ rx_run b s g"
| "rx_run (Group n a) s g =
     map (\<lambda>(t, h). (t, h[n := Some (take (length s - length t) s)])) (rx_run a s g)"
| "rx_run (Star a) s g =
     concat (map (\<lambda>(t, h). if length t < length s then rx_run (Star a) t h else [])
                 (rx_run a s g)) @ [(s, g)]"

fun rx_groups :: "rx \<Rightarrow> nat" where
  "rx_groups (Cat a b) = max (rx_groups a) (rx_groups b)"
| "rx_groups (Alt a b) = max (rx_groups a) (rx_groups b)"
| "rx_groups (Star a) = rx_groups a"
| "rx_groups (Group n a) = max n (rx_groups a)"
| "rx_groups r = 0"

definition rx_match :: "rx \<Rightarrow> regex" where
  "rx_match r s =
     (case rx_run r s (replicate (Suc (rx_groups r)) None) of
        [] \<Rightarrow> None
      | (t, g) # rest \<Rightarrow> Some (g[0 := Some (take (length s - length t) s)]))"

fun rx_lit :: "string \<Rightarrow> rx" where
  "rx_lit [] = Empty"
| "rx_lit (c # cs) = Cat (Chr c) (rx_lit cs)"

subsection \<open>Rules, packages and the transformer\<close>

text \<open>
  A rule of the YAML document, as \<^verbatim>\<open>yaml.safe_load\<close> returns it: a dictionary. A key
  that may be absent is an \<open>option\<close>; a key of which only the presence counts
  (\<^verbatim>\<open>'ignore' in rule\<close>) is a \<open>bool\<close>. The fields \<^verbatim>\<open>name\<close>, \<^verbatim>\<open>ver\<close>, \<^verbatim>\<open>category\<close> and
  \<^verbatim>\<open>family\<close> hold one string or a list of strings; \<^verbatim>\<open>replaceinname\<close> is a mapping, kept
  in the order of its items.
\<close>

datatype yaml_field = Scalar string | Sequence "string list"

record yaml_rule =
  y_name :: "yaml_field option"
  y_ver :: "yaml_field option"
  y_category :: "yaml_field option"
  y_family :: "yaml_field option"
  y_namepat :: "string option"
  y_verpat :: "string option"
  y_verlonger :: "int option"
  y_ignore :: bool
  y_unignore :: bool
  y_ignorever :: bool
  y_unignorever :: bool
  y_last :: bool
  y_setname :: "string option"
  y_replaceinname :: "(string \<times> string) list option"
  y_tolowername :: bool

text \<open>
  The same dictionary after the constructor's first loop: the four fields are lists,
  the patterns are compiled, and the keys \<^verbatim>\<open>pretty\<close> and \<^verbatim>\<open>matches\<close> are added.
\<close>

record rule =
  r_name :: "string list option"
  r_ver :: "string list option"
  r_category :: "string list option"
  r_family :: "string list option"
  r_namepat :: "regex option"
  r_verpat :: "regex option"
  r_verlonger :: "int option"
  r_ignore :: bool
  r_unignore :: bool
  r_ignorever :: bool
  r_unignorever :: bool
  r_last :: bool
  r_setname :: "string option"
  r_replaceinname :: "(string \<times> string) list option"
  r_tolowername :: bool
  r_pretty :: string
  r_matches :: nat

text \<open>
  The package object \<^verbatim>\<open>Process\<close> reads and writes. \<^verbatim>\<open>effname\<close> is \<open>None\<close> until
  \<^verbatim>\<open>Process\<close> assigns it.
\<close>

record package =
  name :: string
  version :: string
  category :: string
  family :: string
  effname :: "string option"
  ignore :: bool
  ignoreversion :: bool

text \<open>
  The two lambdas the constructor puts in front of a pack. \<^verbatim>\<open>lambda name: name in names\<close>
  has the constructor's local variable \<^verbatim>\<open>names\<close> free: a Python closure holds the
  variable, not the value it had when the lambda was made, so every such lambda reads
  what \<^verbatim>\<open>names\<close> holds when it is called. The constructor rebinds \<^verbatim>\<open>names\<close>
  (\<^verbatim>\<open>names = set()\<close>) as it goes; once it has returned, the variable holds its last
  value for good, kept here in the field \<open>names_cell\<close> of the transformer.

  The rule dictionaries are shared between \<^verbatim>\<open>self.rules\<close> and the packs, and
  \<^verbatim>\<open>Process\<close> mutates them (\<^verbatim>\<open>rule['matches'] += 1\<close>). \<open>rules\<close> is the store; a pack
  holds references into it, the positions of its rules in \<open>rules\<close>.
\<close>

datatype precondition = NameInNames | AlwaysTrue

record transformer =
  rules :: "rule list"
  rulepacks :: "(precondition \<times> nat list) list"
  names_cell :: "string set"

subsection \<open>The constructor\<close>

definition as_list :: "yaml_field \<Rightarrow> string list" where
  "as_list f = (case f of Scalar s \<Rightarrow> [s] | Sequence l \<Rightarrow> l)"

text \<open>
  \<^verbatim>\<open>re.compile\<close> and \<^verbatim>\<open>pprint.PrettyPrinter(width=10000).pformat\<close> are parameters:
  \<open>re_compile\<close> returns \<open>None\<close> where \<^verbatim>\<open>re.compile\<close> raises.
\<close>

definition compile_field ::
  "(string \<Rightarrow> regex option) \<Rightarrow> string option \<Rightarrow> error + regex option" where
  "compile_field re_compile f =
     (case f of
        None \<Rightarrow> Inr None
      | Some p \<Rightarrow>
          (case re_compile (p @ ''$'') of
             None \<Rightarrow> Inl PatternError
           | Some rx \<Rightarrow> Inr (Some rx)))"

definition compile_rule ::
  "(yaml_rule \<Rightarrow> string) \<Rightarrow> (string \<Rightarrow> regex option) \<Rightarrow> yaml_rule \<Rightarrow> error + rule" where
  "compile_rule pformat re_compile y =
     (case compile_field re_compile (y_namepat y) of
        Inl e \<Rightarrow> Inl e
      | Inr np \<Rightarrow>
          (case compile_field re_compile (y_verpat y) of
             Inl e \<Rightarrow> Inl e
           | Inr vp \<Rightarrow>
               Inr \<lparr> r_name = map_option as_list (y_name y),
                     r_ver = map_option as_list (y_ver y),
                     r_category = map_option as_list (y_category y),
                     r_family = map_option as_list (y_family y),
                     r_namepat = np,
                     r_verpat = vp,
                     r_verlonger = y_verlonger y,
                     r_ignore = y_ignore y,
                     r_unignore = y_unignore y,
                     r_ignorever = y_ignorever y,
                     r_unignorever = y_unignorever y,
                     r_last = y_last y,
                     r_setname = y_setname y,
                     r_replaceinname = y_replaceinname y,
                     r_tolowername = y_tolowername y,
                     r_pretty = pformat y,
                     r_matches = 0 \<rparr>))"

fun compile_rules ::
  "(yaml_rule \<Rightarrow> string) \<Rightarrow> (string \<Rightarrow> regex option) \<Rightarrow> yaml_rule list \<Rightarrow> error + rule list" where
  "compile_rules pformat re_compile [] = Inr []"
| "compile_rules pformat re_compile (y # ys) =
     (case compile_rule pformat re_compile y of
        Inl e \<Rightarrow> Inl e
      | Inr r \<Rightarrow>
          (case compile_rules pformat re_compile ys of
             Inl e \<Rightarrow> Inl e
           | Inr rs \<Rightarrow> Inr (r # rs)))"

text \<open>
  The packing loop. Its state is \<^verbatim>\<open>self.rulepacks\<close>, \<^verbatim>\<open>names\<close> and \<^verbatim>\<open>pack\<close>; \<open>i\<close> is the
  position of the rule at hand. The inner loop runs once for each name of the rule,
  and the rule is appended to the pack inside it.
\<close>

fun add_names :: "string list \<Rightarrow> nat \<Rightarrow> string set \<times> nat list \<Rightarrow> string set \<times> nat list" where
  "add_names [] i (names, pack) = (names, pack)"
| "add_names (n # ns) i (names, pack) = add_names ns i (insert n names, pack @ [i])"

fun pack_rules ::
  "rule list \<Rightarrow> nat \<Rightarrow> (precondition \<times> nat list) list \<times> string set \<times> nat list
     \<Rightarrow> (precondition \<times> nat list) list \<times> string set \<times> nat list" where
  "pack_rules [] i st = st"
| "pack_rules (r # rs) i (packs, names, pack) =
     (case r_name r of
        Some ns \<Rightarrow>
          (case add_names ns i (names, pack) of
             (names', pack') \<Rightarrow> pack_rules rs (Suc i) (packs, names', pack'))
      | None \<Rightarrow>
          pack_rules rs (Suc i)
            ((if names \<noteq> {} then packs @ [(NameInNames, pack)] else packs)
               @ [(AlwaysTrue, [i])],
             {}, []))"

definition init ::
  "(yaml_rule \<Rightarrow> string) \<Rightarrow> (string \<Rightarrow> regex option) \<Rightarrow> yaml_rule list \<Rightarrow> error + transformer" where
  "init pformat re_compile doc =
     (case compile_rules pformat re_compile doc of
        Inl e \<Rightarrow> Inl e
      | Inr rs \<Rightarrow>
          (case pack_rules rs 0 ([], {}, []) of
             (packs, names', pack) \<Rightarrow>
               Inr \<lparr> rules = rs,
                     rulepacks = (if names' \<noteq> {} then packs @ [(NameInNames, pack)] else packs),
                     names_cell = names' \<rparr>))"

subsection \<open>MatchRule and ApplyRule\<close>

definition MatchRule :: "rule \<Rightarrow> string \<Rightarrow> string \<Rightarrow> string \<Rightarrow> string \<Rightarrow> bool" where
  "MatchRule rule pkgname pkgversion pkgcategory pkgfamily =
     (if (case r_family rule of Some l \<Rightarrow> pkgfamily \<notin> set l | None \<Rightarrow> False) then False
      else if (case r_category rule of Some l \<Rightarrow> pkgcategory \<notin> set l | None \<Rightarrow> False) then False
      else if (case r_name rule of Some l \<Rightarrow> pkgname \<notin> set l | None \<Rightarrow> False) then False
      else if (case r_namepat rule of Some rx \<Rightarrow> rx pkgname = None | None \<Rightarrow> False) then False
      else if (case r_ver rule of Some l \<Rightarrow> pkgversion \<notin> set l | None \<Rightarrow> False) then False
      else if (case r_verpat rule of Some rx \<Rightarrow> rx pkgversion = None | None \<Rightarrow> False) then False
      else if (case r_verlonger rule of
                 Some n \<Rightarrow> \<not> int (length (split_dot pkgversion)) > n | None \<Rightarrow> False) then False
      else True)"

text \<open>The constants of the class \<^verbatim>\<open>MatchResult\<close>.\<close>

definition MatchResult_ignorepackage :: int where "MatchResult_ignorepackage = 1"
definition MatchResult_ignoreversion :: int where "MatchResult_ignoreversion = 2"
definition MatchResult_lastrule :: int where "MatchResult_lastrule = 4"
definition MatchResult_unignorepackage :: int where "MatchResult_unignorepackage = 8"
definition MatchResult_unignoreversion :: int where "MatchResult_unignoreversion = 16"

definition ApplyRule :: "rule \<Rightarrow> string \<Rightarrow> string \<Rightarrow> error + (int \<times> string)" where
  "ApplyRule rule pkgname pkgversion =
     (let flags = 0;
          flags = (if r_ignore rule then flags OR MatchResult_ignorepackage else flags);
          flags = (if r_unignore rule then flags OR MatchResult_unignorepackage else flags);
          flags = (if r_ignorever rule then flags OR MatchResult_ignoreversion else flags);
          flags = (if r_unignorever rule then flags OR MatchResult_unignoreversion else flags);
          flags = (if r_last rule then flags OR MatchResult_lastrule else flags)
      in case (case r_setname rule of
                 None \<Rightarrow> Inr pkgname
               | Some template \<Rightarrow>
                   (case (case r_namepat rule of None \<Rightarrow> None | Some rx \<Rightarrow> rx pkgname) of
                      Some m \<Rightarrow> dollarN_sub m template
                    | None \<Rightarrow> dollar0_sub pkgname template)) of
           Inl e \<Rightarrow> Inl e
         | Inr pkgname \<Rightarrow>
             (let pkgname =
                    (case r_replaceinname rule of
                       None \<Rightarrow> pkgname
                     | Some items \<Rightarrow>
                         foldl (\<lambda>pkgname (pattern, replacement).
                                  str_replace pattern replacement pkgname) pkgname items);
                  pkgname = (if r_tolowername rule then lower pkgname else pkgname)
              in Inr (flags, pkgname)))"

subsection \<open>Process\<close>

text \<open>
  The state of the two loops: the local \<^verbatim>\<open>transformed_name\<close>, the package and the rule
  store. A loop body ends by going on (\<open>Next\<close>), by the \<^verbatim>\<open>return\<close> of a last rule, or by
  an exception.
\<close>

record pstate =
  transformed_name :: string
  pkg :: package
  store :: "rule list"

datatype flow = Next | Return | Raise error

text \<open>The body of the inner loop, for the rule at position \<open>i\<close> of the store.\<close>

definition rule_body :: "nat \<Rightarrow> pstate \<Rightarrow> flow \<times> pstate" where
  "rule_body i st =
     (if \<not> MatchRule (store st ! i) (transformed_name st) (version (pkg st))
             (category (pkg st)) (family (pkg st))
      then (Next, st)
      else
        (let st = st\<lparr>store := (store st)
                      [i := (store st ! i)\<lparr>r_matches := r_matches (store st ! i) + 1\<rparr>]\<rparr>
         in case ApplyRule (store st ! i) (transformed_name st) (version (pkg st)) of
              Inl e \<Rightarrow> (Raise e, st)
            | Inr (flags, new_name) \<Rightarrow>
                (let st = st\<lparr>transformed_name := new_name\<rparr>;
                     st = (if flags AND MatchResult_ignorepackage \<noteq> 0
                           then st\<lparr>pkg := (pkg st)\<lparr>ignore := True\<rparr>\<rparr> else st);
                     st = (if flags AND MatchResult_ignoreversion \<noteq> 0
                           then st\<lparr>pkg := (pkg st)\<lparr>ignoreversion := True\<rparr>\<rparr> else st);
                     st = (if flags AND MatchResult_unignorepackage \<noteq> 0
                           then st\<lparr>pkg := (pkg st)\<lparr>ignore := False\<rparr>\<rparr> else st);
                     st = (if flags AND MatchResult_unignoreversion \<noteq> 0
                           then st\<lparr>pkg := (pkg st)\<lparr>ignoreversion := False\<rparr>\<rparr> else st)
                 in if flags AND MatchResult_lastrule \<noteq> 0
                    then (Return, st\<lparr>pkg := (pkg st)\<lparr>effname := Some (transformed_name st)\<rparr>\<rparr>)
                    else (Next, st))))"

fun run_rulepack :: "nat list \<Rightarrow> pstate \<Rightarrow> flow \<times> pstate" where
  "run_rulepack [] st = (Next, st)"
| "run_rulepack (i # rest) st =
     (case rule_body i st of
        (Next, st') \<Rightarrow> run_rulepack rest st'
      | (Return, st') \<Rightarrow> (Return, st')
      | (Raise e, st') \<Rightarrow> (Raise e, st'))"

definition eval_precondition :: "string set \<Rightarrow> precondition \<Rightarrow> string \<Rightarrow> bool" where
  "eval_precondition cell p nm = (case p of NameInNames \<Rightarrow> nm \<in> cell | AlwaysTrue \<Rightarrow> True)"

fun run_rulepacks ::
  "string set \<Rightarrow> (precondition \<times> nat list) list \<Rightarrow> pstate \<Rightarrow> flow \<times> pstate" where
  "run_rulepacks cell [] st = (Next, st)"
| "run_rulepacks cell ((precondition, rulepack) # rest) st =
     (if \<not> eval_precondition cell precondition (transformed_name st)
      then run_rulepacks cell rest st
      else
        (case run_rulepack rulepack st of
           (Next, st') \<Rightarrow> run_rulepacks cell rest st'
         | (Return, st') \<Rightarrow> (Return, st')
         | (Raise e, st') \<Rightarrow> (Raise e, st')))"

text \<open>
  \<^verbatim>\<open>Process\<close> returns nothing; its effects are on the package and on the rules. The
  model returns the exception raised, if any, the package and the transformer as they
  are when \<^verbatim>\<open>Process\<close> is left.
\<close>

definition Process :: "transformer \<Rightarrow> package \<Rightarrow> error option \<times> package \<times> transformer" where
  "Process self package =
     (case run_rulepacks (names_cell self) (rulepacks self)
             \<lparr> transformed_name = name package, pkg = package, store = rules self \<rparr> of
        (Next, st) \<Rightarrow>
          (None, (pkg st)\<lparr>effname := Some (transformed_name st)\<rparr>, self\<lparr>rules := store st\<rparr>)
      | (Return, st) \<Rightarrow> (None, pkg st, self\<lparr>rules := store st\<rparr>)
      | (Raise e, st) \<Rightarrow> (Some e, pkg st, self\<lparr>rules := store st\<rparr>))"

subsection \<open>GetUnmatchedRules\<close>

definition GetUnmatchedRules :: "transformer \<Rightarrow> string list" where
  "GetUnmatchedRules self =
     foldl (\<lambda>result rule. if r_matches rule = 0 then result @ [r_pretty rule] else result)
       [] (rules self)"

section \<open>Properties\<close>

subsection \<open>The steps of ApplyRule\<close>

text \<open>
  The parts of \<^verbatim>\<open>ApplyRule\<close> by name: the flags, the \<^verbatim>\<open>setname\<close> substitution, the
  replacements of \<^verbatim>\<open>replaceinname\<close> one after the other, each on the result of the one
  before, and the lowering. \<open>bump\<close> is \<^verbatim>\<open>rule['matches'] += 1\<close> on the store, and
  \<open>apply_flags\<close> is what the four tests on the flags do to the package.
\<close>

definition rule_flags :: "rule \<Rightarrow> int" where
  "rule_flags rule =
     (let flags = 0;
          flags = (if r_ignore rule then flags OR MatchResult_ignorepackage else flags);
          flags = (if r_unignore rule then flags OR MatchResult_unignorepackage else flags);
          flags = (if r_ignorever rule then flags OR MatchResult_ignoreversion else flags);
          flags = (if r_unignorever rule then flags OR MatchResult_unignoreversion else flags);
          flags = (if r_last rule then flags OR MatchResult_lastrule else flags)
      in flags)"

definition setname_step :: "rule \<Rightarrow> string \<Rightarrow> error + string" where
  "setname_step rule nm =
     (case r_setname rule of
        None \<Rightarrow> Inr nm
      | Some template \<Rightarrow>
          (case (case r_namepat rule of None \<Rightarrow> None | Some rx \<Rightarrow> rx nm) of
             Some m \<Rightarrow> dollarN_sub m template
           | None \<Rightarrow> dollar0_sub nm template))"

fun replace_each :: "(string \<times> string) list \<Rightarrow> string \<Rightarrow> string" where
  "replace_each [] nm = nm"
| "replace_each ((pattern, replacement) # rest) nm =
     replace_each rest (str_replace pattern replacement nm)"

definition replaceinname_step :: "rule \<Rightarrow> string \<Rightarrow> string" where
  "replaceinname_step rule nm =
     (case r_replaceinname rule of None \<Rightarrow> nm | Some items \<Rightarrow> replace_each items nm)"

definition tolowername_step :: "rule \<Rightarrow> string \<Rightarrow> string" where
  "tolowername_step rule nm = (if r_tolowername rule then lower nm else nm)"

lemma foldl_replace_each:
  "foldl (\<lambda>pkgname (pattern, replacement). str_replace pattern replacement pkgname) nm items
     = replace_each items nm"
  by (induction items arbitrary: nm) auto

lemma ApplyRule_steps:
  "ApplyRule rule nm ver =
     (case setname_step rule nm of
        Inl e \<Rightarrow> Inl e
      | Inr n1 \<Rightarrow>
          Inr (rule_flags rule, tolowername_step rule (replaceinname_step rule n1)))"
  by (simp only: ApplyRule_def rule_flags_def setname_step_def replaceinname_step_def
        tolowername_step_def Let_def foldl_replace_each)

lemma rule_flags_bits:
  "(rule_flags rule AND MatchResult_ignorepackage \<noteq> 0) = r_ignore rule"
  "(rule_flags rule AND MatchResult_unignorepackage \<noteq> 0) = r_unignore rule"
  "(rule_flags rule AND MatchResult_ignoreversion \<noteq> 0) = r_ignorever rule"
  "(rule_flags rule AND MatchResult_unignoreversion \<noteq> 0) = r_unignorever rule"
  "(rule_flags rule AND MatchResult_lastrule \<noteq> 0) = r_last rule"
  by (cases "r_ignore rule"; cases "r_unignore rule"; cases "r_ignorever rule";
      cases "r_unignorever rule"; cases "r_last rule";
      simp add: rule_flags_def MatchResult_ignorepackage_def MatchResult_unignorepackage_def
        MatchResult_ignoreversion_def MatchResult_unignoreversion_def MatchResult_lastrule_def)+

lemma steps_matches [simp]:
  "rule_flags (r\<lparr>r_matches := k\<rparr>) = rule_flags r"
  "setname_step (r\<lparr>r_matches := k\<rparr>) nm = setname_step r nm"
  "replaceinname_step (r\<lparr>r_matches := k\<rparr>) nm = replaceinname_step r nm"
  "tolowername_step (r\<lparr>r_matches := k\<rparr>) nm = tolowername_step r nm"
  by (simp_all add: rule_flags_def setname_step_def replaceinname_step_def
        tolowername_step_def cong: option.case_cong)

lemma ApplyRule_matches [simp]:
  "ApplyRule (r\<lparr>r_matches := k\<rparr>) nm ver = ApplyRule r nm ver"
  by (simp add: ApplyRule_steps cong: sum.case_cong)

lemma MatchRule_matches [simp]:
  "MatchRule (r\<lparr>r_matches := k\<rparr>) nm ver cat fam = MatchRule r nm ver cat fam"
  by (simp add: MatchRule_def)


definition bump :: "nat \<Rightarrow> rule list \<Rightarrow> rule list" where
  "bump i rs = rs[i := (rs ! i)\<lparr>r_matches := r_matches (rs ! i) + 1\<rparr>]"

definition apply_flags :: "rule \<Rightarrow> package \<Rightarrow> package" where
  "apply_flags r p =
     p\<lparr>ignore := (if r_unignore r then False else (r_ignore r \<or> ignore p)),
       ignoreversion := (if r_unignorever r then False else (r_ignorever r \<or> ignoreversion p))\<rparr>"

lemma rule_body_nomatch:
  "\<not> MatchRule (store st ! i) (transformed_name st) (version (pkg st))
        (category (pkg st)) (family (pkg st))
   \<Longrightarrow> rule_body i st = (Next, st)"
  by (simp add: rule_body_def)

lemma bump_nth:
  "i < length rs \<Longrightarrow> bump i rs ! i = (rs ! i)\<lparr>r_matches := r_matches (rs ! i) + 1\<rparr>"
  by (simp add: bump_def)

lemma rule_body_raise:
  assumes "MatchRule (store st ! i) (transformed_name st) (version (pkg st))
             (category (pkg st)) (family (pkg st))"
      and "i < length (store st)"
      and "setname_step (store st ! i) (transformed_name st) = Inl e"
  shows "rule_body i st = (Raise e, st\<lparr>store := bump i (store st)\<rparr>)"
  using assms by (simp add: rule_body_def ApplyRule_steps bump_def)

lemma rule_body_apply:
  assumes "MatchRule (store st ! i) (transformed_name st) (version (pkg st))
             (category (pkg st)) (family (pkg st))"
      and "i < length (store st)"
      and "setname_step (store st ! i) (transformed_name st) = Inr n1"
      and "new_name = tolowername_step (store st ! i) (replaceinname_step (store st ! i) n1)"
  shows "rule_body i st =
           (if r_last (store st ! i)
            then (Return, \<lparr>transformed_name = new_name,
                           pkg = (apply_flags (store st ! i) (pkg st))\<lparr>effname := Some new_name\<rparr>,
                           store = bump i (store st)\<rparr>)
            else (Next, \<lparr>transformed_name = new_name,
                         pkg = apply_flags (store st ! i) (pkg st),
                         store = bump i (store st)\<rparr>))"
  using assms
  by (simp add: rule_body_def ApplyRule_steps bump_def Let_def rule_flags_bits apply_flags_def)

text \<open>A rule with no condition and no action, and a package, to build examples from.\<close>

definition blank_rule :: rule where
  "blank_rule =
     \<lparr> r_name = None, r_ver = None, r_category = None, r_family = None,
       r_namepat = None, r_verpat = None, r_verlonger = None,
       r_ignore = False, r_unignore = False, r_ignorever = False, r_unignorever = False,
       r_last = False, r_setname = None, r_replaceinname = None, r_tolowername = False,
       r_pretty = [], r_matches = 0 \<rparr>"

definition example_package :: "string \<Rightarrow> package" where
  "example_package nm =
     \<lparr> name = nm, version = ''1.0'', category = ''x'', family = ''freebsd'',
       effname = None, ignore = False, ignoreversion = False \<rparr>"

subsection \<open>The order of the renaming steps\<close>


subsection \<open>A rule that both ignores and unignores\<close>

text \<open>
  C10. When a rule that has both \<^verbatim>\<open>ignore\<close> and \<^verbatim>\<open>unignore\<close> matches and is applied, the
  package leaves the application with \<^verbatim>\<open>ignore\<close> false, whatever it was before: the
  test for the unignore flag comes after the test for the ignore flag. The same holds
  for \<^verbatim>\<open>ignorever\<close> and \<^verbatim>\<open>unignorever\<close> with \<^verbatim>\<open>ignoreversion\<close>.
\<close>

theorem unignore_after_ignore:
  assumes "MatchRule (store st ! i) (transformed_name st) (version (pkg st))
             (category (pkg st)) (family (pkg st))"
      and "i < length (store st)"
      and "rule_body i st = (fl, st')"
      and "fl = Next \<or> fl = Return"
  shows "(r_ignore (store st ! i) \<and> r_unignore (store st ! i) \<longrightarrow> \<not> ignore (pkg st'))
       \<and> (r_ignorever (store st ! i) \<and> r_unignorever (store st ! i)
            \<longrightarrow> \<not> ignoreversion (pkg st'))"
proof (cases "setname_step (store st ! i) (transformed_name st)")
  case (Inl e)
  from rule_body_raise [OF assms(1,2) Inl] assms(3,4) show ?thesis by auto
next
  case (Inr n1)
  from rule_body_apply [OF assms(1,2) Inr refl] assms(3)
  have "pkg st' = apply_flags (store st ! i) (pkg st)
      \<or> pkg st' = (apply_flags (store st ! i) (pkg st))
            \<lparr>effname := Some (tolowername_step (store st ! i)
                               (replaceinname_step (store st ! i) n1))\<rparr>"
    by (auto split: if_splits)
  then show ?thesis by (auto simp: apply_flags_def)
qed

definition ignored_state :: pstate where
  "ignored_state =
     \<lparr> transformed_name = ''foo'',
       pkg = (example_package ''foo'')\<lparr>ignore := True, ignoreversion := True\<rparr>,
       store = [blank_rule\<lparr>r_ignore := True, r_unignore := True,
                           r_ignorever := True, r_unignorever := True\<rparr>] \<rparr>"

theorem unignore_after_ignore_witness:
  "ignore (pkg ignored_state) \<and> ignoreversion (pkg ignored_state)
   \<and> fst (rule_body 0 ignored_state) = Next
   \<and> \<not> ignore (pkg (snd (rule_body 0 ignored_state)))
   \<and> \<not> ignoreversion (pkg (snd (rule_body 0 ignored_state)))"
proof -
  have m: "MatchRule (store ignored_state ! 0) (transformed_name ignored_state)
             (version (pkg ignored_state)) (category (pkg ignored_state))
             (family (pkg ignored_state))"
    by (simp add: ignored_state_def MatchRule_def blank_rule_def)
  have l: "0 < length (store ignored_state)"
    by (simp add: ignored_state_def)
  have s: "setname_step (store ignored_state ! 0) (transformed_name ignored_state) = Inr ''foo''"
    by (simp add: ignored_state_def setname_step_def blank_rule_def)
  have f: "fst (rule_body 0 ignored_state) = Next"
    using rule_body_apply [OF m l s refl] by (simp add: ignored_state_def blank_rule_def)
  have r: "rule_body 0 ignored_state = (Next, snd (rule_body 0 ignored_state))"
    using f by (cases "rule_body 0 ignored_state") simp
  have "ignore (pkg ignored_state) \<and> ignoreversion (pkg ignored_state)"
    by (simp add: ignored_state_def)
  moreover have "\<not> ignore (pkg (snd (rule_body 0 ignored_state)))
      \<and> \<not> ignoreversion (pkg (snd (rule_body 0 ignored_state)))"
    using unignore_after_ignore [OF m l r] by (simp add: ignored_state_def blank_rule_def)
  ultimately show ?thesis using f by simp
qed

subsection \<open>The loops of Process\<close>

lemma run_rulepack_append:
  "run_rulepack (xs @ ys) st =
     (case run_rulepack xs st of
        (Next, st') \<Rightarrow> run_rulepack ys st'
      | (Return, st') \<Rightarrow> (Return, st')
      | (Raise e, st') \<Rightarrow> (Raise e, st'))"
  by (induction xs arbitrary: st) (auto split: prod.splits flow.splits)

lemma run_rulepacks_append:
  "run_rulepacks cell (ps @ qs) st =
     (case run_rulepacks cell ps st of
        (Next, st') \<Rightarrow> run_rulepacks cell qs st'
      | (Return, st') \<Rightarrow> (Return, st')
      | (Raise e, st') \<Rightarrow> (Raise e, st'))"
proof (induction ps arbitrary: st)
  case Nil
  show ?case by simp
next
  case (Cons p ps)
  obtain pre pack where p: "p = (pre, pack)" by (cases p)
  show ?case
  proof (cases "eval_precondition cell pre (transformed_name st)")
    case True
    obtain fl st' where r: "run_rulepack pack st = (fl, st')"
      by (cases "run_rulepack pack st")
    show ?thesis using True r Cons.IH p by (cases fl) simp_all
  next
    case False
    then show ?thesis using Cons.IH p by simp
  qed
qed

text \<open>
  What the loop body does to the state: it leaves the state alone when the rule does not
  match, and otherwise counts the match; it never writes the four inputs of the package.
\<close>

definition inputs_kept :: "package \<Rightarrow> package \<Rightarrow> bool" where
  "inputs_kept p p' =
     (name p' = name p \<and> version p' = version p \<and> category p' = category p
      \<and> family p' = family p)"

lemma rule_body_effect:
  assumes "rule_body i st = (fl, st')"
  shows "(if MatchRule (store st ! i) (transformed_name st) (version (pkg st))
             (category (pkg st)) (family (pkg st))
          then store st' = bump i (store st) else fl = Next \<and> st' = st)
         \<and> inputs_kept (pkg st) (pkg st')"
proof (cases "MatchRule (store st ! i) (transformed_name st) (version (pkg st))
             (category (pkg st)) (family (pkg st))")
  case False
  with assms show ?thesis by (simp add: rule_body_def inputs_kept_def)
next
  case True
  let ?st1 = "st\<lparr>store := bump i (store st)\<rparr>"
  show ?thesis
  proof (cases "ApplyRule (store ?st1 ! i) (transformed_name st) (version (pkg st))")
    case (Inl e)
    with True assms show ?thesis
      by (auto simp: rule_body_def bump_def inputs_kept_def)
  next
    case (Inr r)
    obtain flags nn where r: "r = (flags, nn)" by (cases r)
    from True assms Inr r show ?thesis
      by (auto simp: rule_body_def bump_def inputs_kept_def Let_def split: if_splits)
  qed
qed


text \<open>
  \<open>counts_grow rs rs'\<close>: the store \<open>rs'\<close> holds the rules of \<open>rs\<close>, in the same places, with
  match counts that are no smaller.
\<close>

definition counts_grow :: "rule list \<Rightarrow> rule list \<Rightarrow> bool" where
  "counts_grow rs rs' =
     list_all2 (\<lambda>r r'. r' = r\<lparr>r_matches := r_matches r'\<rparr> \<and> r_matches r \<le> r_matches r') rs rs'"

lemma counts_grow_refl: "counts_grow rs rs"
  by (simp add: counts_grow_def list_all2_conv_all_nth)

lemma counts_grow_trans:
  assumes "counts_grow a b" and "counts_grow b c"
  shows "counts_grow a c"
proof -
  have len: "length a = length b" "length b = length c"
    using assms by (simp_all add: counts_grow_def list_all2_lengthD)
  have "c ! j = (a ! j)\<lparr>r_matches := r_matches (c ! j)\<rparr> \<and> r_matches (a ! j) \<le> r_matches (c ! j)"
    if "j < length a" for j
  proof -
    have ab: "b ! j = (a ! j)\<lparr>r_matches := r_matches (b ! j)\<rparr>" "r_matches (a ! j) \<le> r_matches (b ! j)"
      using assms(1) that by (simp_all add: counts_grow_def list_all2_conv_all_nth)
    have bc: "c ! j = (b ! j)\<lparr>r_matches := r_matches (c ! j)\<rparr>" "r_matches (b ! j) \<le> r_matches (c ! j)"
      using assms(2) that len by (simp_all add: counts_grow_def list_all2_conv_all_nth)
    have "c ! j = ((a ! j)\<lparr>r_matches := r_matches (b ! j)\<rparr>)\<lparr>r_matches := r_matches (c ! j)\<rparr>"
      using ab(1) bc(1) by simp
    then show ?thesis using ab(2) bc(2) by simp
  qed
  then show ?thesis using len by (simp add: counts_grow_def list_all2_conv_all_nth)
qed

lemma counts_grow_bump: "counts_grow rs (bump i rs)"
proof -
  have "bump i rs ! j = (rs ! j)\<lparr>r_matches := r_matches (bump i rs ! j)\<rparr>
        \<and> r_matches (rs ! j) \<le> r_matches (bump i rs ! j)"
    if "j < length rs" for j
    using that by (cases "j = i") (simp_all add: bump_def)
  then show ?thesis
    by (simp add: counts_grow_def list_all2_conv_all_nth bump_def)
qed

lemma counts_grow_length: "counts_grow rs rs' \<Longrightarrow> length rs' = length rs"
  by (simp add: counts_grow_def list_all2_lengthD)

lemma counts_grow_nth:
  "counts_grow rs rs' \<Longrightarrow> j < length rs \<Longrightarrow>
     rs' ! j = (rs ! j)\<lparr>r_matches := r_matches (rs' ! j)\<rparr> \<and> r_matches (rs ! j) \<le> r_matches (rs' ! j)"
  by (simp add: counts_grow_def list_all2_conv_all_nth)

lemma counts_grow_pretty: "counts_grow rs rs' \<Longrightarrow> map r_pretty rs' = map r_pretty rs"
proof (rule nth_equalityI)
  assume g: "counts_grow rs rs'"
  show "length (map r_pretty rs') = length (map r_pretty rs)"
    using g by (simp add: counts_grow_length)
  fix j assume "j < length (map r_pretty rs')"
  then have j: "j < length rs" using g by (simp add: counts_grow_length)
  have "r_pretty (rs' ! j) = r_pretty ((rs ! j)\<lparr>r_matches := r_matches (rs' ! j)\<rparr>)"
    using counts_grow_nth [OF g j] by simp
  then show "map r_pretty rs' ! j = map r_pretty rs ! j"
    using j g by (simp add: counts_grow_length)
qed

lemma rule_body_grow:
  "rule_body i st = (fl, st') \<Longrightarrow> counts_grow (store st) (store st')"
  using rule_body_effect [of i st fl st']
  by (auto simp: counts_grow_refl counts_grow_bump split: if_splits)

lemma rule_body_inputs:
  "rule_body i st = (fl, st') \<Longrightarrow> inputs_kept (pkg st) (pkg st')"
  using rule_body_effect [of i st fl st'] by simp

lemma inputs_kept_trans:
  "inputs_kept a b \<Longrightarrow> inputs_kept b c \<Longrightarrow> inputs_kept a c"
  by (simp add: inputs_kept_def)

lemma run_rulepack_frame:
  "run_rulepack pack st = (fl, st') \<Longrightarrow>
     counts_grow (store st) (store st') \<and> inputs_kept (pkg st) (pkg st')"
proof (induction pack arbitrary: st)
  case Nil
  then show ?case by (auto simp: counts_grow_refl inputs_kept_def)
next
  case (Cons i pack)
  obtain f1 s1 where b: "rule_body i st = (f1, s1)" by (cases "rule_body i st")
  note g = rule_body_grow [OF b] rule_body_inputs [OF b]
  show ?case
  proof (cases f1)
    case Next
    with Cons.prems b have "run_rulepack pack s1 = (fl, st')" by simp
    from Cons.IH [OF this] g show ?thesis
      by (blast intro: counts_grow_trans inputs_kept_trans)
  next
    case Return
    with Cons.prems b g show ?thesis by auto
  next
    case (Raise e)
    with Cons.prems b g show ?thesis by auto
  qed
qed

lemma run_rulepacks_frame:
  "run_rulepacks cell packs st = (fl, st') \<Longrightarrow>
     counts_grow (store st) (store st') \<and> inputs_kept (pkg st) (pkg st')"
proof (induction packs arbitrary: st)
  case Nil
  then show ?case by (auto simp: counts_grow_refl inputs_kept_def)
next
  case (Cons p packs)
  obtain pre pack where p: "p = (pre, pack)" by (cases p)
  show ?case
  proof (cases "eval_precondition cell pre (transformed_name st)")
    case False
    with Cons.prems p have "run_rulepacks cell packs st = (fl, st')" by simp
    from Cons.IH [OF this] show ?thesis .
  next
    case True
    obtain f1 s1 where b: "run_rulepack pack st = (f1, s1)" by (cases "run_rulepack pack st")
    note g = run_rulepack_frame [OF b]
    show ?thesis
    proof (cases f1)
      case Next
      with Cons.prems p True b have "run_rulepacks cell packs s1 = (fl, st')" by simp
      from Cons.IH [OF this] g show ?thesis
        by (blast intro: counts_grow_trans inputs_kept_trans)
    next
      case Return
      with Cons.prems p True b g show ?thesis by auto
    next
      case (Raise e)
      with Cons.prems p True b g show ?thesis by auto
    qed
  qed
qed

text \<open>
  The state \<^verbatim>\<open>Process\<close> starts its loops in; the transformer after a caller has run a
  list of packages through \<^verbatim>\<open>Process\<close>; and the well-formedness of the references in
  the packs.
\<close>

definition start_state :: "transformer \<Rightarrow> package \<Rightarrow> pstate" where
  "start_state self package =
     \<lparr> transformed_name = name package, pkg = package, store = rules self \<rparr>"

definition process_all :: "transformer \<Rightarrow> package list \<Rightarrow> transformer" where
  "process_all self packages = foldl (\<lambda>t p. snd (snd (Process t p))) self packages"

definition refs_valid :: "transformer \<Rightarrow> bool" where
  "refs_valid self =
     list_all (\<lambda>(pre, pack). list_all (\<lambda>i. i < length (rules self)) pack) (rulepacks self)"

lemma Process_result:
  assumes "run_rulepacks (names_cell self) (rulepacks self) (start_state self p) = (fl, st)"
  shows "Process self p =
           (case fl of
              Next \<Rightarrow> (None, (pkg st)\<lparr>effname := Some (transformed_name st)\<rparr>, self\<lparr>rules := store st\<rparr>)
            | Return \<Rightarrow> (None, pkg st, self\<lparr>rules := store st\<rparr>)
            | Raise e \<Rightarrow> (Some e, pkg st, self\<lparr>rules := store st\<rparr>))"
  using assms by (cases fl) (simp_all add: Process_def start_state_def)

lemma Process_frame:
  assumes "Process self p = (err, p', self')"
  shows "rulepacks self' = rulepacks self \<and> names_cell self' = names_cell self
         \<and> counts_grow (rules self) (rules self') \<and> inputs_kept p p'"
proof -
  obtain fl st where r: "run_rulepacks (names_cell self) (rulepacks self) (start_state self p) = (fl, st)"
    by (cases "run_rulepacks (names_cell self) (rulepacks self) (start_state self p)")
  from run_rulepacks_frame [OF r]
  have g: "counts_grow (rules self) (store st)" "inputs_kept p (pkg st)"
    by (simp_all add: start_state_def)
  from Process_result [OF r] assms g show ?thesis
    by (cases fl) (auto simp: inputs_kept_def)
qed

lemma process_all_frame:
  "rulepacks (process_all self ps) = rulepacks self
   \<and> names_cell (process_all self ps) = names_cell self
   \<and> counts_grow (rules self) (rules (process_all self ps))"
proof (induction ps arbitrary: self)
  case Nil
  show ?case by (simp add: process_all_def counts_grow_refl)
next
  case (Cons p ps)
  obtain err p' self' where r: "Process self p = (err, p', self')"
    by (cases "Process self p") auto
  have step: "process_all self (p # ps) = process_all self' ps"
    using r by (simp add: process_all_def)
  from Process_frame [OF r] Cons.IH [of self'] show ?case
    unfolding step by (auto intro: counts_grow_trans)
qed

lemma refs_valid_frame:
  "refs_valid self \<Longrightarrow> rulepacks self' = rulepacks self
     \<Longrightarrow> length (rules self') = length (rules self) \<Longrightarrow> refs_valid self'"
  by (simp add: refs_valid_def)


subsection \<open>What the constructor establishes\<close>

lemma compile_rule_props:
  "compile_rule pformat re_compile y = Inr r \<Longrightarrow> r_pretty r = pformat y \<and> r_matches r = 0"
  by (auto simp: compile_rule_def split: sum.splits)

lemma compile_rules_props:
  "compile_rules pformat re_compile doc = Inr rs \<Longrightarrow>
     length rs = length doc \<and> map r_pretty rs = map pformat doc
     \<and> list_all (\<lambda>r. r_matches r = 0) rs"
proof (induction doc arbitrary: rs)
  case Nil
  then show ?case by simp
next
  case (Cons y doc)
  from Cons.prems obtain r rs' where
    r: "compile_rule pformat re_compile y = Inr r"
    and rs': "compile_rules pformat re_compile doc = Inr rs'"
    and rs: "rs = r # rs'"
    by (auto split: sum.splits)
  from Cons.IH [OF rs'] compile_rule_props [OF r] rs show ?case by simp
qed

lemma add_names_eq:
  "add_names ns i (names, pack) = (names \<union> set ns, pack @ replicate (length ns) i)"
  by (induction ns arbitrary: names pack) (auto simp: replicate_app_Cons_same)

definition packs_below :: "nat \<Rightarrow> (precondition \<times> nat list) list \<Rightarrow> bool" where
  "packs_below n packs = list_all (\<lambda>(pre, pack). list_all (\<lambda>i. i < n) pack) packs"

lemma pack_rules_below:
  assumes "pack_rules rs i (packs, names, pack) = (packs', names', pack')"
      and "packs_below n packs" and "list_all (\<lambda>j. j < n) pack" and "i + length rs \<le> n"
  shows "packs_below n packs' \<and> list_all (\<lambda>j. j < n) pack'"
  using assms
proof (induction rs arbitrary: i packs names pack)
  case Nil
  then show ?case by simp
next
  case (Cons r rs)
  show ?case
  proof (cases "r_name r")
    case None
    let ?packs = "(if names \<noteq> {} then packs @ [(NameInNames, pack)] else packs) @ [(AlwaysTrue, [i])]"
    from Cons.prems(1) None
    have run: "pack_rules rs (Suc i) (?packs, {}, []) = (packs', names', pack')" by simp
    have "packs_below n ?packs"
      using Cons.prems(2,3,4) by (simp add: packs_below_def)
    from Cons.IH [OF run this] Cons.prems(4) show ?thesis by simp
  next
    case (Some ns)
    from Cons.prems(1) Some
    have run: "pack_rules rs (Suc i) (packs, names \<union> set ns, pack @ replicate (length ns) i)
                 = (packs', names', pack')"
      by (simp add: add_names_eq)
    have "list_all (\<lambda>j. j < n) (pack @ replicate (length ns) i)"
      using Cons.prems(3,4) by (auto simp: list_all_iff)
    from Cons.IH [OF run Cons.prems(2) this] Cons.prems(4) show ?thesis by simp
  qed
qed

lemma init_props:
  assumes "init pformat re_compile doc = Inr self"
  shows "refs_valid self \<and> length (rules self) = length doc
         \<and> map r_pretty (rules self) = map pformat doc
         \<and> list_all (\<lambda>r. r_matches r = 0) (rules self)"
proof -
  from assms obtain rs where rs: "compile_rules pformat re_compile doc = Inr rs"
    by (auto simp: init_def split: sum.splits)
  obtain packs names' pack where pk: "pack_rules rs 0 ([], {}, []) = (packs, names', pack)"
    by (cases "pack_rules rs 0 ([], {}, [])") auto
  from assms rs pk have self:
    "self = \<lparr> rules = rs,
              rulepacks = (if names' \<noteq> {} then packs @ [(NameInNames, pack)] else packs),
              names_cell = names' \<rparr>"
    by (simp add: init_def)
  have "packs_below (length rs) packs \<and> list_all (\<lambda>j. j < length rs) pack"
    by (rule pack_rules_below [OF pk]) (simp_all add: packs_below_def)
  then have "refs_valid self"
    by (simp add: self refs_valid_def packs_below_def)
  with compile_rules_props [OF rs] show ?thesis by (simp add: self)
qed

lemma reachable_valid:
  assumes "init pformat re_compile doc = Inr t0"
  shows "refs_valid (process_all t0 ps) \<and> length (rules (process_all t0 ps)) = length doc
         \<and> map r_pretty (rules (process_all t0 ps)) = map pformat doc"
proof -
  note i = init_props [OF assms]
  note f = process_all_frame [of t0 ps]
  from f have len: "length (rules (process_all t0 ps)) = length (rules t0)"
    by (simp add: counts_grow_length)
  have "refs_valid (process_all t0 ps)"
    by (rule refs_valid_frame [of t0]) (use i f len in simp_all)
  moreover have "map r_pretty (rules (process_all t0 ps)) = map r_pretty (rules t0)"
    using f by (intro counts_grow_pretty) simp
  ultimately show ?thesis using len i by simp
qed

subsection \<open>Example documents\<close>

text \<open>
  A stand-in for the pretty-printer, a stand-in for \<^verbatim>\<open>re.compile\<close> that knows the
  patterns of the examples, and the rule set of the specification's end-to-end scenario,
  \<^verbatim>\<open>[{family: freebsd, ignore: true}, {name: Foo, setname: foo}]\<close>, with the transformer
  the constructor builds from it.
\<close>

definition blank_yaml :: yaml_rule where
  "blank_yaml =
     \<lparr> y_name = None, y_ver = None, y_category = None, y_family = None,
       y_namepat = None, y_verpat = None, y_verlonger = None,
       y_ignore = False, y_unignore = False, y_ignorever = False, y_unignorever = False,
       y_last = False, y_setname = None, y_replaceinname = None, y_tolowername = False \<rparr>"

definition example_pformat :: "yaml_rule \<Rightarrow> string" where
  "example_pformat y =
     (case y_setname y of None \<Rightarrow> ''{}'' | Some t \<Rightarrow> ''{setname: '' @ t @ ''}'')"

definition lib_rx :: rx where
  "lib_rx = Cat (rx_lit ''lib'') (Cat (Group 1 (Star AnyChar)) EndAnchor)"

definition example_re_compile :: "string \<Rightarrow> regex option" where
  "example_re_compile p =
     (if p = ''lib(.*)$'' then Some (rx_match lib_rx)
      else if p = ''a$'' then Some (rx_match (Cat (Chr CHR ''a'') EndAnchor))
      else None)"

definition scenario_doc :: "yaml_rule list" where
  "scenario_doc =
     [blank_yaml\<lparr>y_family := Some (Scalar ''freebsd''), y_ignore := True\<rparr>,
      blank_yaml\<lparr>y_name := Some (Scalar ''Foo''), y_setname := Some ''foo''\<rparr>]"

definition scenario_transformer :: transformer where
  "scenario_transformer =
     \<lparr> rules = [blank_rule\<lparr>r_family := Some [''freebsd''], r_ignore := True, r_pretty := ''{}''\<rparr>,
                blank_rule\<lparr>r_name := Some [''Foo''], r_setname := Some ''foo'',
                           r_pretty := ''{setname: foo}''\<rparr>],
       rulepacks = [(AlwaysTrue, [0]), (NameInNames, [1])],
       names_cell = {''Foo''} \<rparr>"

lemma scenario_init:
  "init example_pformat example_re_compile scenario_doc = Inr scenario_transformer"
  by (simp add: init_def scenario_doc_def scenario_transformer_def compile_rule_def
        compile_field_def blank_yaml_def blank_rule_def example_pformat_def as_list_def)

subsection \<open>A package that matches no rule\<close>

lemma run_rulepack_nomatch:
  assumes "list_all (\<lambda>i. \<not> MatchRule (store st ! i) (transformed_name st) (version (pkg st))
                          (category (pkg st)) (family (pkg st))) pack"
  shows "run_rulepack pack st = (Next, st)"
  using assms by (induction pack) (simp_all add: rule_body_nomatch)

lemma run_rulepacks_nomatch:
  assumes "list_all (\<lambda>(pre, pack).
             list_all (\<lambda>i. \<not> MatchRule (store st ! i) (transformed_name st) (version (pkg st))
                          (category (pkg st)) (family (pkg st))) pack) packs"
  shows "run_rulepacks cell packs st = (Next, st)"
  using assms by (induction packs) (auto simp: run_rulepack_nomatch)

text \<open>
  C7. Take a transformer built by the constructor, after any number of earlier calls of
  \<^verbatim>\<open>Process\<close>, and a package whose name, version, category and family satisfy no rule.
  Then \<^verbatim>\<open>Process\<close> raises nothing, sets \<^verbatim>\<open>effname\<close> to the name of the package, and
  changes nothing else: \<^verbatim>\<open>ignore\<close> and \<^verbatim>\<open>ignoreversion\<close> stay as they were (false when they
  started false), and no rule's count moves.
\<close>

theorem no_match_identity:
  assumes "init pformat re_compile doc = Inr t0"
      and "self = process_all t0 earlier"
      and "list_all (\<lambda>r. \<not> MatchRule r (name p) (version p) (category p) (family p)) (rules self)"
  shows "Process self p = (None, p\<lparr>effname := Some (name p)\<rparr>, self)
         \<and> ignore (fst (snd (Process self p))) = ignore p
         \<and> ignoreversion (fst (snd (Process self p))) = ignoreversion p"
proof -
  have valid: "refs_valid self"
    using reachable_valid [OF assms(1), of earlier] assms(2) by simp
  have "list_all (\<lambda>(pre, pack).
          list_all (\<lambda>i. \<not> MatchRule (store (start_state self p) ! i)
                (transformed_name (start_state self p)) (version (pkg (start_state self p)))
                (category (pkg (start_state self p))) (family (pkg (start_state self p)))) pack)
          (rulepacks self)"
    using valid assms(3)
    by (auto simp: refs_valid_def start_state_def list_all_iff)
  then have "run_rulepacks (names_cell self) (rulepacks self) (start_state self p)
               = (Next, start_state self p)"
    by (rule run_rulepacks_nomatch)
  from Process_result [OF this]
  have "Process self p = (None, p\<lparr>effname := Some (name p)\<rparr>, self)"
    by (simp add: start_state_def)
  then show ?thesis by simp
qed

theorem no_match_identity_witness:
  "Process scenario_transformer ((example_package ''bar'')\<lparr>family := ''gentoo''\<rparr>)
     = (None, (example_package ''bar'')\<lparr>family := ''gentoo'', effname := Some ''bar''\<rparr>,
        scenario_transformer)"
proof -
  have r: "scenario_transformer = process_all scenario_transformer []"
    by (simp add: process_all_def)
  have m: "list_all (\<lambda>r. \<not> MatchRule r (name ((example_package ''bar'')\<lparr>family := ''gentoo''\<rparr>))
               (version ((example_package ''bar'')\<lparr>family := ''gentoo''\<rparr>))
               (category ((example_package ''bar'')\<lparr>family := ''gentoo''\<rparr>))
               (family ((example_package ''bar'')\<lparr>family := ''gentoo''\<rparr>)))
             (rules scenario_transformer)"
    by (simp add: scenario_transformer_def MatchRule_def blank_rule_def example_package_def)
  from no_match_identity [OF scenario_init r m] show ?thesis
    by (simp add: example_package_def)
qed

subsection \<open>A last rule ends the processing\<close>

lemma ApplyRule_Inr:
  "ApplyRule rule nm ver = Inr (flags, new_name) \<Longrightarrow>
     \<exists>n1. setname_step rule nm = Inr n1
        \<and> new_name = tolowername_step rule (replaceinname_step rule n1)"
  by (auto simp: ApplyRule_steps split: sum.splits)

lemma rule_body_last:
  assumes "MatchRule (store st ! i) (transformed_name st) (version (pkg st))
             (category (pkg st)) (family (pkg st))"
      and "i < length (store st)"
      and "r_last (store st ! i)"
      and "ApplyRule (store st ! i) (transformed_name st) (version (pkg st)) = Inr (flags, new_name)"
  shows "rule_body i st =
           (Return, \<lparr>transformed_name = new_name,
                     pkg = (apply_flags (store st ! i) (pkg st))\<lparr>effname := Some new_name\<rparr>,
                     store = bump i (store st)\<rparr>)"
proof -
  from ApplyRule_Inr [OF assms(4)] obtain n1 where
    n1: "setname_step (store st ! i) (transformed_name st) = Inr n1"
    and nn: "new_name = tolowername_step (store st ! i) (replaceinname_step (store st ! i) n1)"
    by blast
  from rule_body_apply [OF assms(1,2) n1 nn] assms(3) show ?thesis by simp
qed

text \<open>
  C6. Let \<^verbatim>\<open>Process\<close> reach, after the packs \<open>before\<close> and the rules \<open>earlier\<close> of a pack
  it has entered, a rule that matches and has \<^verbatim>\<open>last\<close>. Then \<^verbatim>\<open>Process\<close> applies that rule,
  sets \<^verbatim>\<open>effname\<close> to the name the rule produced and returns: the package and the rule
  store are those of the moment, with the flags of this rule applied and its count one
  higher. Nothing depends on the rules \<open>later\<close> in the pack or on the packs \<open>after\<close> it:
  the outcome is that of the rule set cut off behind the last rule, so no later rule
  is matched or applied and no later count moves.
\<close>

theorem last_stops_all:
  assumes "rulepacks self = before @ (pre, earlier @ i # later) # after"
      and "run_rulepacks (names_cell self) before (start_state self p) = (Next, st1)"
      and "eval_precondition (names_cell self) pre (transformed_name st1)"
      and "run_rulepack earlier st1 = (Next, st)"
      and "i < length (store st)"
      and "MatchRule (store st ! i) (transformed_name st) (version (pkg st))
             (category (pkg st)) (family (pkg st))"
      and "r_last (store st ! i)"
      and "ApplyRule (store st ! i) (transformed_name st) (version (pkg st)) = Inr (flags, new_name)"
  shows "Process self p =
           (None, (apply_flags (store st ! i) (pkg st))\<lparr>effname := Some new_name\<rparr>,
            self\<lparr>rules := bump i (store st)\<rparr>)
         \<and> Process (self\<lparr>rulepacks := before @ [(pre, earlier @ [i])]\<rparr>) p =
           (None, (apply_flags (store st ! i) (pkg st))\<lparr>effname := Some new_name\<rparr>,
            self\<lparr>rulepacks := before @ [(pre, earlier @ [i])], rules := bump i (store st)\<rparr>)"
proof -
  let ?out = "\<lparr>transformed_name = new_name,
               pkg = (apply_flags (store st ! i) (pkg st))\<lparr>effname := Some new_name\<rparr>,
               store = bump i (store st)\<rparr>"
  have body: "rule_body i st = (Return, ?out)"
    by (rule rule_body_last [OF assms(6,5,7,8)])
  have pack: "run_rulepack (earlier @ i # rest) st1 = (Return, ?out)" for rest
    using assms(4) body by (simp add: run_rulepack_append)
  have packs: "run_rulepacks (names_cell self) (before @ (pre, earlier @ i # rest) # more_packs)
                 (start_state self p) = (Return, ?out)" for rest more_packs
    using assms(2,3) pack [of rest] by (simp add: run_rulepacks_append)
  have one: "run_rulepacks (names_cell self) (rulepacks self) (start_state self p) = (Return, ?out)"
    using packs [of later after] assms(1) by simp
  let ?cut = "self\<lparr>rulepacks := before @ [(pre, earlier @ [i])]\<rparr>"
  have two: "run_rulepacks (names_cell ?cut) (rulepacks ?cut) (start_state ?cut p) = (Return, ?out)"
    using packs [of "[]" "[]"] by (simp add: start_state_def)
  from Process_result [OF one] Process_result [OF two] show ?thesis by simp
qed

text \<open>
  An example: the first rule sets \<^verbatim>\<open>ignorever\<close>; the second renames \<^verbatim>\<open>Foo\<close> to \<^verbatim>\<open>foo\<close> and is
  last; the third, in the same pack, would ignore a package named \<^verbatim>\<open>foo\<close>.
\<close>

definition last_doc :: "yaml_rule list" where
  "last_doc =
     [blank_yaml\<lparr>y_ignorever := True\<rparr>,
      blank_yaml\<lparr>y_name := Some (Scalar ''Foo''), y_setname := Some ''foo'', y_last := True\<rparr>,
      blank_yaml\<lparr>y_name := Some (Scalar ''foo''), y_ignore := True\<rparr>]"

definition last_rules :: "rule list" where
  "last_rules =
     [blank_rule\<lparr>r_ignorever := True, r_pretty := ''{}''\<rparr>,
      blank_rule\<lparr>r_name := Some [''Foo''], r_setname := Some ''foo'', r_last := True,
                 r_pretty := ''{setname: foo}''\<rparr>,
      blank_rule\<lparr>r_name := Some [''foo''], r_ignore := True, r_pretty := ''{}''\<rparr>]"

definition last_transformer :: transformer where
  "last_transformer =
     \<lparr> rules = last_rules,
       rulepacks = [(AlwaysTrue, [0]), (NameInNames, [1, 2])],
       names_cell = {''Foo'', ''foo''} \<rparr>"

lemma last_init:
  "init example_pformat example_re_compile last_doc = Inr last_transformer"
  by (simp add: init_def last_doc_def last_transformer_def last_rules_def compile_rule_def
        compile_field_def blank_yaml_def blank_rule_def example_pformat_def as_list_def
        insert_commute)

theorem last_stops_all_witness:
  "Process last_transformer (example_package ''Foo'') =
     (None,
      (example_package ''Foo'')\<lparr>ignoreversion := True, effname := Some ''foo''\<rparr>,
      last_transformer\<lparr>rules := bump 1 (bump 0 last_rules)\<rparr>)
   \<and> r_matches (bump 1 (bump 0 last_rules) ! 2) = 0"
proof -
  let ?p = "example_package ''Foo''"
  let ?st1 = "\<lparr>transformed_name = ''Foo'', pkg = ?p\<lparr>ignoreversion := True\<rparr>,
               store = bump 0 last_rules\<rparr>"
  have packs: "rulepacks last_transformer
                 = [(AlwaysTrue, [0])] @ (NameInNames, [] @ 1 # [2]) # []"
    by (simp add: last_transformer_def)
  have m0: "MatchRule (store (start_state last_transformer ?p) ! 0)
              (transformed_name (start_state last_transformer ?p))
              (version (pkg (start_state last_transformer ?p)))
              (category (pkg (start_state last_transformer ?p)))
              (family (pkg (start_state last_transformer ?p)))"
    by (simp add: start_state_def last_transformer_def last_rules_def MatchRule_def blank_rule_def)
  have s0: "setname_step (store (start_state last_transformer ?p) ! 0)
              (transformed_name (start_state last_transformer ?p)) = Inr ''Foo''"
    by (simp add: start_state_def last_transformer_def last_rules_def setname_step_def
          blank_rule_def example_package_def)
  have b0: "rule_body 0 (start_state last_transformer ?p) = (Next, ?st1)"
    using rule_body_apply [OF m0 _ s0 refl]
    by (simp add: start_state_def last_transformer_def last_rules_def blank_rule_def
          apply_flags_def example_package_def replaceinname_step_def tolowername_step_def)
  have before: "run_rulepacks (names_cell last_transformer) [(AlwaysTrue, [0])]
                  (start_state last_transformer ?p) = (Next, ?st1)"
    using b0 by (simp add: eval_precondition_def)
  have pre: "eval_precondition (names_cell last_transformer) NameInNames (transformed_name ?st1)"
    by (simp add: eval_precondition_def last_transformer_def)
  have earlier: "run_rulepack [] ?st1 = (Next, ?st1)" by simp
  have len: "1 < length (store ?st1)" by (simp add: bump_def last_rules_def)
  have r1: "store ?st1 ! 1 = last_rules ! 1"
    by (simp add: bump_def last_rules_def)
  have m1: "MatchRule (store ?st1 ! 1) (transformed_name ?st1) (version (pkg ?st1))
              (category (pkg ?st1)) (family (pkg ?st1))"
    unfolding r1 by (simp add: last_rules_def MatchRule_def blank_rule_def)
  have l1: "r_last (store ?st1 ! 1)"
    unfolding r1 by (simp add: last_rules_def blank_rule_def)
  have a1: "ApplyRule (store ?st1 ! 1) (transformed_name ?st1) (version (pkg ?st1))
              = Inr (MatchResult_lastrule, ''foo'')"
    unfolding r1
    by (simp add: last_rules_def blank_rule_def ApplyRule_steps setname_step_def dollar0_sub_def
          replaceinname_step_def tolowername_step_def rule_flags_def)
  have "Process last_transformer ?p =
          (None, (apply_flags (store ?st1 ! 1) (pkg ?st1))\<lparr>effname := Some ''foo''\<rparr>,
           last_transformer\<lparr>rules := bump 1 (store ?st1)\<rparr>)"
    using last_stops_all [OF packs before pre earlier len m1 l1 a1] by simp
  moreover have "apply_flags (store ?st1 ! 1) (pkg ?st1) = ?p\<lparr>ignoreversion := True\<rparr>"
    unfolding r1 by (simp add: apply_flags_def last_rules_def blank_rule_def example_package_def)
  moreover have "r_matches (bump 1 (bump 0 last_rules) ! 2) = 0"
    by (simp add: bump_def last_rules_def blank_rule_def)
  ultimately show ?thesis by simp
qed

subsection \<open>Matching follows the current name\<close>

text \<open>
  \<open>set_original_name x st\<close> is the state \<open>st\<close> with the attribute \<^verbatim>\<open>name\<close> of the package
  overwritten: the original name, which the loops never read again.
\<close>

definition set_original_name :: "string \<Rightarrow> pstate \<Rightarrow> pstate" where
  "set_original_name x st = st\<lparr>pkg := (pkg st)\<lparr>name := x\<rparr>\<rparr>"

lemma rule_body_name_blind:
  "rule_body i (set_original_name x st) =
     (case rule_body i st of (fl, st') \<Rightarrow> (fl, set_original_name x st'))"
  by (simp add: rule_body_def set_original_name_def Let_def split: sum.splits prod.splits)


lemma run_rulepack_name_blind:
  "run_rulepack pack (set_original_name x st) =
     (case run_rulepack pack st of (fl, st') \<Rightarrow> (fl, set_original_name x st'))"
proof (induction pack arbitrary: st)
  case Nil
  show ?case by simp
next
  case (Cons i pack)
  obtain f1 s1 where b: "rule_body i st = (f1, s1)" by (cases "rule_body i st")
  show ?case
    using b Cons.IH [of s1] by (cases f1) (simp_all add: rule_body_name_blind)
qed

lemma set_original_name_current [simp]:
  "transformed_name (set_original_name x st) = transformed_name st"
  by (simp add: set_original_name_def)

lemma run_rulepacks_name_blind:
  "run_rulepacks cell packs (set_original_name x st) =
     (case run_rulepacks cell packs st of (fl, st') \<Rightarrow> (fl, set_original_name x st'))"
proof (induction packs arbitrary: st)
  case Nil
  show ?case by simp
next
  case (Cons p packs)
  obtain pre pack where p: "p = (pre, pack)" by (cases p)
  show ?case
  proof (cases "eval_precondition cell pre (transformed_name st)")
    case False
    then show ?thesis using p Cons.IH [of st] by simp
  next
    case True
    obtain f1 s1 where b: "run_rulepack pack st = (f1, s1)" by (cases "run_rulepack pack st")
    show ?thesis
      using True p b Cons.IH [of s1] by (cases f1) (simp_all add: run_rulepack_name_blind)
  qed
qed

text \<open>
  The conditions of a rule that do not look at the name, and \<^verbatim>\<open>MatchRule\<close> as the
  conjunction of the name list, the name pattern and those.
\<close>

definition other_conditions :: "rule \<Rightarrow> string \<Rightarrow> string \<Rightarrow> string \<Rightarrow> bool" where
  "other_conditions r ver cat fam =
     ((case r_family r of None \<Rightarrow> True | Some l \<Rightarrow> fam \<in> set l)
      \<and> (case r_category r of None \<Rightarrow> True | Some l \<Rightarrow> cat \<in> set l)
      \<and> (case r_ver r of None \<Rightarrow> True | Some l \<Rightarrow> ver \<in> set l)
      \<and> (case r_verpat r of None \<Rightarrow> True | Some rx \<Rightarrow> rx ver \<noteq> None)
      \<and> (case r_verlonger r of None \<Rightarrow> True | Some n \<Rightarrow> n < int (length (split_dot ver))))"

lemma MatchRule_conditions:
  "MatchRule r nm ver cat fam =
     ((case r_name r of None \<Rightarrow> True | Some l \<Rightarrow> nm \<in> set l)
      \<and> (case r_namepat r of None \<Rightarrow> True | Some rx \<Rightarrow> rx nm \<noteq> None)
      \<and> other_conditions r ver cat fam)"
  by (auto simp: MatchRule_def other_conditions_def split: option.splits)

lemma bump_changes: "(bump i rs \<noteq> rs) = (i < length rs)"
proof (cases "i < length rs")
  case True
  have "r_matches (bump i rs ! i) \<noteq> r_matches (rs ! i)"
    using True by (simp add: bump_def)
  then have "bump i rs \<noteq> rs" by auto
  with True show ?thesis by simp
next
  case False
  then show ?thesis by (simp add: bump_def not_less list_update_beyond)
qed

lemma rule_body_counts:
  "(store (snd (rule_body j st)) \<noteq> store st) =
     (j < length (store st)
      \<and> MatchRule (store st ! j) (transformed_name st) (version (pkg st))
           (category (pkg st)) (family (pkg st)))"
proof -
  obtain fl s where b: "rule_body j st = (fl, s)" by (cases "rule_body j st")
  from rule_body_effect [OF b] b bump_changes [of j "store st"] show ?thesis
    by (auto split: if_splits)
qed

lemma rule_body_renames:
  assumes "MatchRule (store st ! i) (transformed_name st) (version (pkg st))
             (category (pkg st)) (family (pkg st))"
      and "i < length (store st)"
      and "\<not> r_last (store st ! i)"
      and "ApplyRule (store st ! i) (transformed_name st) (version (pkg st)) = Inr (flags, new_name)"
  shows "rule_body i st =
           (Next, \<lparr>transformed_name = new_name,
                   pkg = apply_flags (store st ! i) (pkg st),
                   store = bump i (store st)\<rparr>)"
proof -
  from ApplyRule_Inr [OF assms(4)] obtain n1 where
    n1: "setname_step (store st ! i) (transformed_name st) = Inr n1"
    and nn: "new_name = tolowername_step (store st ! i) (replaceinname_step (store st ! i) n1)"
    by blast
  from rule_body_apply [OF assms(1,2) n1 nn] assms(3) show ?thesis by simp
qed

text \<open>
  C3. Let \<^verbatim>\<open>Process\<close> have come, after the packs \<open>before\<close> and the rules \<open>earlier\<close> of a pack
  it entered, to a rule that matches, is not last, and for which \<^verbatim>\<open>ApplyRule\<close> returns
  the name \<open>new_name\<close>. Then the loop goes on in the state \<open>st'\<close> whose current name is
  \<open>new_name\<close>, and from there on it is this name that is tested: the rules behind this
  one in the pack are run from \<open>st'\<close>; any rule \<open>j\<close> is counted as matched exactly when its
  name list holds \<open>new_name\<close>, its name pattern matches \<open>new_name\<close> and its other
  conditions hold; the next pack is entered exactly when its precondition holds of
  \<open>new_name\<close> (for a pack of named rules, when \<open>new_name\<close> is in the set the closure reads);
  and the original name of the package plays no part, since overwriting it in the state
  changes nothing in what the loops do.
\<close>

theorem current_name_decides:
  assumes "run_rulepacks cell before st0 = (Next, st1)"
      and "eval_precondition cell pre1 (transformed_name st1)"
      and "run_rulepack earlier st1 = (Next, st)"
      and "i < length (store st)"
      and "MatchRule (store st ! i) (transformed_name st) (version (pkg st))
             (category (pkg st)) (family (pkg st))"
      and "ApplyRule (store st ! i) (transformed_name st) (version (pkg st)) = Inr (flags, new_name)"
      and "\<not> r_last (store st ! i)"
      and "st' = \<lparr>transformed_name = new_name,
                  pkg = apply_flags (store st ! i) (pkg st),
                  store = bump i (store st)\<rparr>"
  shows "rule_body i st = (Next, st')
         \<and> run_rulepack (earlier @ i # rest) st1 = run_rulepack rest st'
         \<and> (store (snd (rule_body j st')) \<noteq> store st') =
             (j < length (store st')
              \<and> (case r_name (store st' ! j) of None \<Rightarrow> True | Some l \<Rightarrow> new_name \<in> set l)
              \<and> (case r_namepat (store st' ! j) of None \<Rightarrow> True | Some rx \<Rightarrow> rx new_name \<noteq> None)
              \<and> other_conditions (store st' ! j) (version (pkg st')) (category (pkg st'))
                   (family (pkg st')))
         \<and> run_rulepacks cell (before @ (pre1, earlier @ [i]) # (pre, pack) # later) st0 =
             (if (case pre of NameInNames \<Rightarrow> new_name \<in> cell | AlwaysTrue \<Rightarrow> True)
              then (case run_rulepack pack st' of
                      (Next, s) \<Rightarrow> run_rulepacks cell later s
                    | (Return, s) \<Rightarrow> (Return, s)
                    | (Raise e, s) \<Rightarrow> (Raise e, s))
              else run_rulepacks cell later st')
         \<and> run_rulepacks cell ((pre, pack) # later) (set_original_name x st') =
             (case run_rulepacks cell ((pre, pack) # later) st' of
                (fl, s) \<Rightarrow> (fl, set_original_name x s))"
proof (intro conjI)
  show body: "rule_body i st = (Next, st')"
    unfolding assms(8) by (rule rule_body_renames [OF assms(5,4,7,6)])
  show tail: "run_rulepack (earlier @ i # rest) st1 = run_rulepack rest st'" for rest
    using assms(3) body by (simp add: run_rulepack_append)
  have nm: "transformed_name st' = new_name" by (simp add: assms(8))
  show "(store (snd (rule_body j st')) \<noteq> store st') =
             (j < length (store st')
              \<and> (case r_name (store st' ! j) of None \<Rightarrow> True | Some l \<Rightarrow> new_name \<in> set l)
              \<and> (case r_namepat (store st' ! j) of None \<Rightarrow> True | Some rx \<Rightarrow> rx new_name \<noteq> None)
              \<and> other_conditions (store st' ! j) (version (pkg st')) (category (pkg st'))
                   (family (pkg st')))"
    unfolding rule_body_counts MatchRule_conditions nm ..
  have "run_rulepacks cell (before @ (pre1, earlier @ [i]) # (pre, pack) # later) st0
          = run_rulepacks cell ((pre, pack) # later) st'"
    using assms(1,2) tail [of "[]"] by (simp add: run_rulepacks_append)
  then show "run_rulepacks cell (before @ (pre1, earlier @ [i]) # (pre, pack) # later) st0 =
             (if (case pre of NameInNames \<Rightarrow> new_name \<in> cell | AlwaysTrue \<Rightarrow> True)
              then (case run_rulepack pack st' of
                      (Next, s) \<Rightarrow> run_rulepacks cell later s
                    | (Return, s) \<Rightarrow> (Return, s)
                    | (Raise e, s) \<Rightarrow> (Raise e, s))
              else run_rulepacks cell later st')"
    by (simp add: eval_precondition_def nm)
  show "run_rulepacks cell ((pre, pack) # later) (set_original_name x st') =
             (case run_rulepacks cell ((pre, pack) # later) st' of
                (fl, s) \<Rightarrow> (fl, set_original_name x s))"
    by (rule run_rulepacks_name_blind)
qed

text \<open>
  An example: the first rule renames \<^verbatim>\<open>a\<close> to \<^verbatim>\<open>b\<close>, the second, in a pack of its own with
  the name set \<^verbatim>\<open>{b}\<close>, renames \<^verbatim>\<open>b\<close> to \<^verbatim>\<open>c\<close>. A package named \<^verbatim>\<open>a\<close> enters the second
  pack although its original name is not in the set.
\<close>

definition rename_doc :: "yaml_rule list" where
  "rename_doc =
     [blank_yaml\<lparr>y_namepat := Some ''a'', y_setname := Some ''b''\<rparr>,
      blank_yaml\<lparr>y_name := Some (Scalar ''b''), y_setname := Some ''c''\<rparr>]"

definition rename_rules :: "rule list" where
  "rename_rules =
     [blank_rule\<lparr>r_namepat := Some (rx_match (Cat (Chr CHR ''a'') EndAnchor)),
                 r_setname := Some ''b'', r_pretty := ''{setname: b}''\<rparr>,
      blank_rule\<lparr>r_name := Some [''b''], r_setname := Some ''c'', r_pretty := ''{setname: c}''\<rparr>]"

definition rename_transformer :: transformer where
  "rename_transformer =
     \<lparr> rules = rename_rules,
       rulepacks = [(AlwaysTrue, [0]), (NameInNames, [1])],
       names_cell = {''b''} \<rparr>"

lemma rename_init:
  "init example_pformat example_re_compile rename_doc = Inr rename_transformer"
  by (simp add: init_def rename_doc_def rename_transformer_def rename_rules_def compile_rule_def
        compile_field_def blank_yaml_def blank_rule_def example_pformat_def as_list_def
        example_re_compile_def)


theorem current_name_decides_witness:
  "name (example_package ''a'') = ''a''
   \<and> ''a'' \<notin> names_cell rename_transformer
   \<and> \<not> MatchRule (rules rename_transformer ! 1) ''a'' ''1.0'' ''x'' ''freebsd''
   \<and> ApplyRule (rules rename_transformer ! 0) ''a'' ''1.0'' = Inr (0, ''b'')
   \<and> store (snd (rule_body 1
         \<lparr>transformed_name = ''b'', pkg = example_package ''a'',
            store = bump 0 rename_rules\<rparr>)) \<noteq> bump 0 rename_rules
   \<and> Process rename_transformer (example_package ''a'') =
       (None, (example_package ''a'')\<lparr>effname := Some ''c''\<rparr>,
        rename_transformer\<lparr>rules := bump 1 (bump 0 rename_rules)\<rparr>)"
proof -
  let ?p = "example_package ''a''"
  let ?cell = "names_cell rename_transformer"
  let ?st0 = "start_state rename_transformer ?p"
  let ?st1 = "\<lparr>transformed_name = ''b'', pkg = ?p, store = bump 0 rename_rules\<rparr>"
  let ?st2 = "\<lparr>transformed_name = ''c'', pkg = ?p, store = bump 1 (bump 0 rename_rules)\<rparr>"
  have rx: "rx_match (Cat (Chr CHR ''a'') EndAnchor) ''a'' = Some [Some ''a'']"
    by (simp add: rx_match_def)
  have before: "run_rulepacks ?cell [] ?st0 = (Next, ?st0)" by simp
  have enter: "eval_precondition ?cell AlwaysTrue (transformed_name ?st0)"
    by (simp add: eval_precondition_def)
  have earlier: "run_rulepack [] ?st0 = (Next, ?st0)" by simp
  have len: "0 < length (store ?st0)"
    by (simp add: start_state_def rename_transformer_def rename_rules_def)
  have m0: "MatchRule (store ?st0 ! 0) (transformed_name ?st0) (version (pkg ?st0))
              (category (pkg ?st0)) (family (pkg ?st0))"
    by (simp add: start_state_def rename_transformer_def rename_rules_def MatchRule_def
          blank_rule_def example_package_def rx)
  have a0: "ApplyRule (store ?st0 ! 0) (transformed_name ?st0) (version (pkg ?st0))
              = Inr (0, ''b'')"
    by (simp add: start_state_def rename_transformer_def rename_rules_def blank_rule_def
          example_package_def rx ApplyRule_steps setname_step_def replaceinname_step_def
          tolowername_step_def rule_flags_def is_digit_def)
  have l0: "\<not> r_last (store ?st0 ! 0)"
    by (simp add: start_state_def rename_transformer_def rename_rules_def blank_rule_def)
  have st1: "?st1 = \<lparr>transformed_name = ''b'',
                       pkg = apply_flags (store ?st0 ! 0) (pkg ?st0),
                       store = bump 0 (store ?st0)\<rparr>"
    by (simp add: start_state_def rename_transformer_def rename_rules_def blank_rule_def
          apply_flags_def example_package_def)
  note cn = current_name_decides [OF before enter earlier len m0 a0 l0 st1,
      of _ 1 NameInNames "[1]" "[]"]
  have r1: "store ?st1 ! 1 = rename_rules ! 1"
    by (simp add: bump_def rename_rules_def)
  have l1: "1 < length (store ?st1)"
    by (simp add: bump_def rename_rules_def)
  have counted: "store (snd (rule_body 1 ?st1)) \<noteq> bump 0 rename_rules"
    using cn l1 unfolding r1
    by (simp add: rename_rules_def blank_rule_def other_conditions_def)
  have m1: "MatchRule (store ?st1 ! 1) (transformed_name ?st1) (version (pkg ?st1))
              (category (pkg ?st1)) (family (pkg ?st1))"
    unfolding r1 by (simp add: rename_rules_def MatchRule_def blank_rule_def)
  have s1: "setname_step (store ?st1 ! 1) (transformed_name ?st1) = Inr ''c''"
    unfolding r1 by (simp add: rename_rules_def setname_step_def blank_rule_def dollar0_sub_def)
  have b1: "rule_body 1 ?st1 = (Next, ?st2)"
    using rule_body_apply [OF m1 l1 s1 refl] unfolding r1
    by (simp add: rename_rules_def blank_rule_def apply_flags_def example_package_def
          replaceinname_step_def tolowername_step_def)
  have inside: "''b'' \<in> ?cell" by (simp add: rename_transformer_def)
  have "run_rulepacks ?cell ([] @ (AlwaysTrue, [] @ [0]) # (NameInNames, [1]) # []) ?st0
          = (Next, ?st2)"
    using cn inside b1 by simp
  then have "run_rulepacks ?cell (rulepacks rename_transformer) ?st0 = (Next, ?st2)"
    by (simp add: rename_transformer_def)
  from Process_result [OF this]
  have "Process rename_transformer ?p =
          (None, ?p\<lparr>effname := Some ''c''\<rparr>,
           rename_transformer\<lparr>rules := bump 1 (bump 0 rename_rules)\<rparr>)"
    by simp
  moreover have "name ?p = ''a''" by (simp add: example_package_def)
  moreover have "''a'' \<notin> ?cell" by (simp add: rename_transformer_def)
  moreover have "\<not> MatchRule (rules rename_transformer ! 1) ''a'' ''1.0'' ''x'' ''freebsd''"
    by (simp add: rename_transformer_def rename_rules_def MatchRule_def blank_rule_def)
  moreover have "ApplyRule (rules rename_transformer ! 0) ''a'' ''1.0'' = Inr (0, ''b'')"
    using a0 by (simp add: start_state_def example_package_def)
  ultimately show ?thesis using counted by simp
qed

subsection \<open>The rules that never matched\<close>

lemma GetUnmatchedRules_filter:
  "GetUnmatchedRules self = map r_pretty (filter (\<lambda>r. r_matches r = 0) (rules self))"
proof -
  have "foldl (\<lambda>result rule. if r_matches rule = 0 then result @ [r_pretty rule] else result) acc rs
          = acc @ map r_pretty (filter (\<lambda>r. r_matches r = 0) rs)" for acc rs
    by (induction rs arbitrary: acc) simp_all
  from this [of "[]" "rules self"] show ?thesis by (simp add: GetUnmatchedRules_def)
qed

lemma filter_by_position:
  "filter P rs = map (\<lambda>i. rs ! i) (filter (\<lambda>i. P (rs ! i)) [0..<length rs])"
proof -
  have "filter P (map (\<lambda>i. rs ! i) [0..<length rs])
          = map (\<lambda>i. rs ! i) (filter (P \<circ> (\<lambda>i. rs ! i)) [0..<length rs])"
    by (rule filter_map)
  then show ?thesis by (simp add: map_nth comp_def)
qed

lemma grow_positive:
  "counts_grow rs rs' \<Longrightarrow> j < length rs \<Longrightarrow> 0 < r_matches (rs ! j) \<Longrightarrow> 0 < r_matches (rs' ! j)"
  using counts_grow_nth [of rs rs' j] by simp

lemma matched_counted_pack:
  assumes "MatchRule (store st ! i) (transformed_name st) (version (pkg st))
             (category (pkg st)) (family (pkg st))"
      and "i < length (store st)"
      and "run_rulepack (i # rest) st = (fl, st')"
  shows "0 < r_matches (store st' ! i)"
proof -
  obtain f1 s1 where b: "rule_body i st = (f1, s1)" by (cases "rule_body i st")
  from rule_body_effect [OF b] assms(1) have s1: "store s1 = bump i (store st)" by simp
  have pos: "0 < r_matches (store s1 ! i)" and len: "i < length (store s1)"
    using assms(2) by (simp_all add: s1 bump_def)
  show ?thesis
  proof (cases f1)
    case Next
    with assms(3) b have "run_rulepack rest s1 = (fl, st')" by simp
    from run_rulepack_frame [OF this] have "counts_grow (store s1) (store st')" by simp
    from grow_positive [OF this len pos] show ?thesis .
  next
    case Return
    with assms(3) b pos show ?thesis by auto
  next
    case (Raise e)
    with assms(3) b pos show ?thesis by auto
  qed
qed

lemma matched_counted_packs:
  assumes "run_rulepacks cell before st0 = (Next, st1)"
      and "eval_precondition cell pre (transformed_name st1)"
      and "run_rulepack first st1 = (Next, st)"
      and "MatchRule (store st ! i) (transformed_name st) (version (pkg st))
             (category (pkg st)) (family (pkg st))"
      and "i < length (store st0)"
      and "run_rulepacks cell (before @ (pre, first @ i # rest) # after_packs) st0 = (fl, st')"
  shows "0 < r_matches (store st' ! i)"
proof -
  have len: "length (store st) = length (store st0)"
    using run_rulepacks_frame [OF assms(1)] run_rulepack_frame [OF assms(3)]
      counts_grow_length [of "store st0" "store st1"] counts_grow_length [of "store st1" "store st"]
    by simp
  obtain f2 s2 where p: "run_rulepack (i # rest) st = (f2, s2)"
    by (cases "run_rulepack (i # rest) st")
  have pos: "0 < r_matches (store s2 ! i)"
    by (rule matched_counted_pack [OF assms(4) _ p]) (simp add: len assms(5))
  have len2: "i < length (store s2)"
    using run_rulepack_frame [OF p] len assms(5) by (auto dest: counts_grow_length)
  have whole: "run_rulepacks cell (before @ (pre, first @ i # rest) # after_packs) st0 =
          (case f2 of Next \<Rightarrow> run_rulepacks cell after_packs s2
           | Return \<Rightarrow> (Return, s2) | Raise e \<Rightarrow> (Raise e, s2))"
    using assms(1,2,3) p
    by (cases f2) (simp_all add: run_rulepacks_append run_rulepack_append)
  show ?thesis
  proof (cases f2)
    case Next
    with whole assms(6) have "run_rulepacks cell after_packs s2 = (fl, st')" by simp
    from run_rulepacks_frame [OF this] have "counts_grow (store s2) (store st')" by simp
    from grow_positive [OF this len2 pos] show ?thesis .
  next
    case Return
    with whole assms(6) pos show ?thesis by auto
  next
    case (Raise e)
    with whole assms(6) pos show ?thesis by auto
  qed
qed

lemma Process_rules:
  "run_rulepacks (names_cell self) (rulepacks self) (start_state self p) = (fl, st)
   \<Longrightarrow> rules (snd (snd (Process self p))) = store st"
  using Process_result [of self p fl st] by (cases fl) simp_all

text \<open>
  C9. Take a transformer built by the constructor from the document \<open>doc\<close>, after any
  number of calls of \<^verbatim>\<open>Process\<close>. \<^verbatim>\<open>GetUnmatchedRules\<close> returns, in the order of the document,
  the text the pretty-printer gave for the rule as it stood in the document, before the
  constructor normalised it, for exactly the positions whose rule has the count 0. And
  a rule whose conditions held when the loops of a \<^verbatim>\<open>Process\<close> call came to it (after the
  packs \<open>before\<close> and the rules \<open>first\<close> of an entered pack) has a positive count after
  that call and after any later calls, so its position is not listed.
\<close>

theorem unmatched_rules:
  assumes "init pformat re_compile doc = Inr t0"
      and "self = process_all t0 earlier"
  shows "GetUnmatchedRules self =
           map (\<lambda>i. pformat (doc ! i))
             (filter (\<lambda>i. r_matches (rules self ! i) = 0) [0..<length doc])
         \<and> (rulepacks self = before @ (pre, first @ i # rest) # after_packs
              \<and> run_rulepacks (names_cell self) before (start_state self p) = (Next, st1)
              \<and> eval_precondition (names_cell self) pre (transformed_name st1)
              \<and> run_rulepack first st1 = (Next, st)
              \<and> MatchRule (store st ! i) (transformed_name st) (version (pkg st))
                   (category (pkg st)) (family (pkg st))
            \<longrightarrow> 0 < r_matches (rules (process_all self (p # later)) ! i))"
proof (intro conjI impI)
  note v = reachable_valid [OF assms(1), of earlier]
  have len: "length (rules self) = length doc"
    and pretty: "map r_pretty (rules self) = map pformat doc"
    using v assms(2) by simp_all
  have "r_pretty (rules self ! i) = pformat (doc ! i)" if "i < length doc" for i
    using pretty that len by (metis nth_map)
  then have "map (\<lambda>i. r_pretty (rules self ! i))
               (filter (\<lambda>i. r_matches (rules self ! i) = 0) [0..<length doc])
           = map (\<lambda>i. pformat (doc ! i))
               (filter (\<lambda>i. r_matches (rules self ! i) = 0) [0..<length doc])"
    by (intro map_cong refl) simp
  moreover have "GetUnmatchedRules self
           = map (\<lambda>i. r_pretty (rules self ! i))
               (filter (\<lambda>i. r_matches (rules self ! i) = 0) [0..<length doc])"
    using filter_by_position [of "\<lambda>r. r_matches r = 0" "rules self"]
    by (simp add: GetUnmatchedRules_filter len comp_def)
  ultimately show "GetUnmatchedRules self =
           map (\<lambda>i. pformat (doc ! i))
             (filter (\<lambda>i. r_matches (rules self ! i) = 0) [0..<length doc])"
    by simp
next
  assume a: "rulepacks self = before @ (pre, first @ i # rest) # after_packs
              \<and> run_rulepacks (names_cell self) before (start_state self p) = (Next, st1)
              \<and> eval_precondition (names_cell self) pre (transformed_name st1)
              \<and> run_rulepack first st1 = (Next, st)
              \<and> MatchRule (store st ! i) (transformed_name st) (version (pkg st))
                   (category (pkg st)) (family (pkg st))"
  have valid: "refs_valid self"
    using reachable_valid [OF assms(1), of earlier] assms(2) by simp
  have i: "i < length (rules self)"
    using valid a by (simp add: refs_valid_def)
  obtain fl st' where run:
    "run_rulepacks (names_cell self) (rulepacks self) (start_state self p) = (fl, st')"
    by (cases "run_rulepacks (names_cell self) (rulepacks self) (start_state self p)")
  have "0 < r_matches (store st' ! i)"
  proof (rule matched_counted_packs)
    show "run_rulepacks (names_cell self) before (start_state self p) = (Next, st1)"
      using a by simp
    show "eval_precondition (names_cell self) pre (transformed_name st1)" using a by simp
    show "run_rulepack first st1 = (Next, st)" using a by simp
    show "MatchRule (store st ! i) (transformed_name st) (version (pkg st))
                   (category (pkg st)) (family (pkg st))" using a by simp
    show "i < length (store (start_state self p))" using i by (simp add: start_state_def)
    show "run_rulepacks (names_cell self) (before @ (pre, first @ i # rest) # after_packs)
            (start_state self p) = (fl, st')"
      using run a by simp
  qed
  then have pos: "0 < r_matches (rules (snd (snd (Process self p))) ! i)"
    by (simp add: Process_rules [OF run])
  have len: "i < length (rules (snd (snd (Process self p))))"
    using run_rulepacks_frame [OF run] i
    by (auto simp: Process_rules [OF run] start_state_def dest: counts_grow_length)
  have step: "process_all self (p # later) = process_all (snd (snd (Process self p))) later"
    by (simp add: process_all_def)
  have "counts_grow (rules (snd (snd (Process self p)))) (rules (process_all self (p # later)))"
    unfolding step using process_all_frame [of "snd (snd (Process self p))" later] by simp
  from grow_positive [OF this len pos]
  show "0 < r_matches (rules (process_all self (p # later)) ! i)" .
qed


lemma run_rulepacks_after:
  "run_rulepacks cell before st0 = (Next, st) \<Longrightarrow>
     run_rulepacks cell (before @ later) st0 = run_rulepacks cell later st"
  by (simp add: run_rulepacks_append)

theorem unmatched_rules_witness:
  "GetUnmatchedRules scenario_transformer = [''{}'', ''{setname: foo}'']
   \<and> 0 < r_matches (rules (process_all scenario_transformer
                               [(example_package ''Foo'')\<lparr>family := ''gentoo''\<rparr>]) ! 1)
   \<and> GetUnmatchedRules (process_all scenario_transformer
                            [(example_package ''Foo'')\<lparr>family := ''gentoo''\<rparr>]) = [''{}'']"
proof -
  let ?p = "(example_package ''Foo'')\<lparr>family := ''gentoo''\<rparr>"
  let ?st0 = "start_state scenario_transformer ?p"
  let ?st2 = "\<lparr>transformed_name = ''foo'', pkg = ?p, store = bump 1 (rules scenario_transformer)\<rparr>"
  have fresh: "scenario_transformer = process_all scenario_transformer []"
    by (simp add: process_all_def)
  have n0: "\<not> MatchRule (store ?st0 ! 0) (transformed_name ?st0) (version (pkg ?st0))
              (category (pkg ?st0)) (family (pkg ?st0))"
    by (simp add: start_state_def scenario_transformer_def MatchRule_def blank_rule_def
          example_package_def)
  have before: "run_rulepacks (names_cell scenario_transformer) [(AlwaysTrue, [0])] ?st0
                  = (Next, ?st0)"
    using rule_body_nomatch [OF n0] by (simp add: eval_precondition_def)
  have pre: "eval_precondition (names_cell scenario_transformer) NameInNames (transformed_name ?st0)"
    by (simp add: eval_precondition_def scenario_transformer_def start_state_def example_package_def)
  have first: "run_rulepack [] ?st0 = (Next, ?st0)" by simp
  have m1: "MatchRule (store ?st0 ! 1) (transformed_name ?st0) (version (pkg ?st0))
              (category (pkg ?st0)) (family (pkg ?st0))"
    by (simp add: start_state_def scenario_transformer_def MatchRule_def blank_rule_def
          example_package_def)
  have packs: "rulepacks scenario_transformer
                 = [(AlwaysTrue, [0])] @ (NameInNames, [] @ 1 # []) # []"
    by (simp add: scenario_transformer_def)
  have all_unmatched: "GetUnmatchedRules scenario_transformer = [''{}'', ''{setname: foo}'']"
    using unmatched_rules [OF scenario_init fresh]
    by (simp add: scenario_doc_def scenario_transformer_def blank_rule_def blank_yaml_def
          example_pformat_def upt_rec)
  have counted: "0 < r_matches (rules (process_all scenario_transformer [?p]) ! 1)"
    using unmatched_rules [OF scenario_init fresh,
        of "[(AlwaysTrue, [0])]" NameInNames "[]" 1 "[]" "[]" ?p ?st0 ?st0 "[]"]
      packs before pre first m1
    by simp
  have s1: "setname_step (store ?st0 ! 1) (transformed_name ?st0) = Inr ''foo''"
    by (simp add: start_state_def scenario_transformer_def setname_step_def blank_rule_def
          dollar0_sub_def example_package_def)
  have b1: "rule_body 1 ?st0 = (Next, ?st2)"
    using rule_body_apply [OF m1 _ s1 refl]
    by (simp add: start_state_def scenario_transformer_def blank_rule_def apply_flags_def
          example_package_def replaceinname_step_def tolowername_step_def)
  have "run_rulepacks (names_cell scenario_transformer) (rulepacks scenario_transformer) ?st0
          = (Next, ?st2)"
    unfolding packs run_rulepacks_after [OF before] using pre b1 by simp
  from Process_rules [OF this]
  have after: "rules (process_all scenario_transformer [?p]) = bump 1 (rules scenario_transformer)"
    by (simp add: process_all_def)
  have listed: "GetUnmatchedRules (process_all scenario_transformer [?p]) =
          map (\<lambda>i. example_pformat (scenario_doc ! i))
            (filter (\<lambda>i. r_matches (rules (process_all scenario_transformer [?p]) ! i) = 0)
               [0..<length scenario_doc])"
    using unmatched_rules [OF scenario_init refl, of "[?p]", THEN conjunct1] .
  have "GetUnmatchedRules (process_all scenario_transformer [?p]) = [''{}'']"
    unfolding listed after
    by (simp add: scenario_doc_def scenario_transformer_def blank_rule_def blank_yaml_def
          example_pformat_def upt_rec bump_def)
  with all_unmatched counted show ?thesis by simp
qed

subsection \<open>Packed evaluation against the evaluation of every rule\<close>

text \<open>
  The evaluation the specification compares \<^verbatim>\<open>Process\<close> with, in its words: every
  compiled rule once, in the order of the document, no pack skipped. It is \<^verbatim>\<open>Process\<close>
  over one pack that is always entered and holds every position once. \<open>outcome\<close> is what
  the comparison looks at: \<^verbatim>\<open>effname\<close>, \<^verbatim>\<open>ignore\<close> and \<^verbatim>\<open>ignoreversion\<close>.
\<close>

definition Process_every_rule ::
  "transformer \<Rightarrow> package \<Rightarrow> error option \<times> package \<times> transformer" where
  "Process_every_rule self package =
     Process (self\<lparr>rulepacks := [(AlwaysTrue, [0..<length (rules self)])]\<rparr>) package"

definition outcome :: "error option \<times> package \<times> transformer \<Rightarrow> string option \<times> bool \<times> bool" where
  "outcome r = (effname (fst (snd r)), ignore (fst (snd r)), ignoreversion (fst (snd r)))"

text \<open>
  Two rule sets. The first is the scenario's with its two rules swapped: the rule with a
  name comes first and a rule without one ends the document, so that the constructor
  leaves \<^verbatim>\<open>names\<close> empty. The second is one rule with two names.
\<close>

definition swapped_doc :: "yaml_rule list" where
  "swapped_doc =
     [blank_yaml\<lparr>y_name := Some (Scalar ''Foo''), y_setname := Some ''foo''\<rparr>,
      blank_yaml\<lparr>y_family := Some (Scalar ''freebsd''), y_ignore := True\<rparr>]"

definition swapped_transformer :: transformer where
  "swapped_transformer =
     \<lparr> rules = [blank_rule\<lparr>r_name := Some [''Foo''], r_setname := Some ''foo'',
                           r_pretty := ''{setname: foo}''\<rparr>,
                blank_rule\<lparr>r_family := Some [''freebsd''], r_ignore := True, r_pretty := ''{}''\<rparr>],
       rulepacks = [(NameInNames, [0]), (AlwaysTrue, [1])],
       names_cell = {} \<rparr>"

lemma swapped_init:
  "init example_pformat example_re_compile swapped_doc = Inr swapped_transformer"
  by (simp add: init_def swapped_doc_def swapped_transformer_def compile_rule_def
        compile_field_def blank_yaml_def blank_rule_def example_pformat_def as_list_def)

text \<open>The definitions to unfold when a run is evaluated on a given input.\<close>

lemmas eval_defs = Process_def Process_every_rule_def outcome_def rule_body_def MatchRule_def
  ApplyRule_steps setname_step_def replaceinname_step_def tolowername_step_def rule_flags_def
  dollar0_sub_def eval_precondition_def blank_rule_def example_package_def
  MatchResult_ignorepackage_def MatchResult_unignorepackage_def
  MatchResult_ignoreversion_def MatchResult_unignoreversion_def MatchResult_lastrule_def

definition doubled_doc :: "yaml_rule list" where
  "doubled_doc =
     [blank_yaml\<lparr>y_name := Some (Sequence [''a'', ''aa'']), y_setname := Some ''$0a''\<rparr>]"

definition doubled_transformer :: transformer where
  "doubled_transformer =
     \<lparr> rules = [blank_rule\<lparr>r_name := Some [''a'', ''aa''], r_setname := Some ''$0a'',
                           r_pretty := ''{setname: $0a}''\<rparr>],
       rulepacks = [(NameInNames, [0, 0])],
       names_cell = {''a'', ''aa''} \<rparr>"

lemma doubled_init:
  "init example_pformat example_re_compile doubled_doc = Inr doubled_transformer"
  by (simp add: init_def doubled_doc_def doubled_transformer_def compile_rule_def
        compile_field_def blank_yaml_def blank_rule_def example_pformat_def as_list_def
        insert_commute)

text \<open>
  C1 (the code departs from the specification). Packed evaluation and the evaluation of every
  rule give different outcomes on both rule sets. On the first, the precondition of the
  pack of the rule named \<^verbatim>\<open>Foo\<close> reads the variable \<^verbatim>\<open>names\<close>, which is empty by the time
  \<^verbatim>\<open>Process\<close> runs: the pack is skipped and the package \<^verbatim>\<open>Foo\<close> keeps its name, where the
  rule, evaluated, renames it to \<^verbatim>\<open>foo\<close>. On the second, the rule stands twice in its
  pack, once for each of its names, and is applied twice: \<^verbatim>\<open>a\<close> becomes \<^verbatim>\<open>aaa\<close>, not \<^verbatim>\<open>aa\<close>.
\<close>

theorem packing_changes_outcome:
  "init example_pformat example_re_compile swapped_doc = Inr swapped_transformer
   \<and> outcome (Process swapped_transformer (example_package ''Foo'')) = (Some ''Foo'', True, False)
   \<and> outcome (Process_every_rule swapped_transformer (example_package ''Foo''))
       = (Some ''foo'', True, False)
   \<and> init example_pformat example_re_compile doubled_doc = Inr doubled_transformer
   \<and> outcome (Process doubled_transformer (example_package ''a'')) = (Some ''aaa'', False, False)
   \<and> outcome (Process_every_rule doubled_transformer (example_package ''a''))
       = (Some ''aa'', False, False)"
proof (intro conjI)
  show "init example_pformat example_re_compile swapped_doc = Inr swapped_transformer"
    by (rule swapped_init)
  show "outcome (Process swapped_transformer (example_package ''Foo'')) = (Some ''Foo'', True, False)"
    by (simp add: swapped_transformer_def eval_defs)
  show "outcome (Process_every_rule swapped_transformer (example_package ''Foo''))
       = (Some ''foo'', True, False)"
    by (simp add: swapped_transformer_def eval_defs upt_rec)
  show "init example_pformat example_re_compile doubled_doc = Inr doubled_transformer"
    by (rule doubled_init)
  show "outcome (Process doubled_transformer (example_package ''a'')) = (Some ''aaa'', False, False)"
    by (simp add: doubled_transformer_def eval_defs)
  show "outcome (Process_every_rule doubled_transformer (example_package ''a''))
       = (Some ''aa'', False, False)"
    by (simp add: doubled_transformer_def eval_defs upt_rec)
qed

subsection \<open>The rules in the packs\<close>

text \<open>The rule slices of the packs, one after the other.\<close>

definition packed_rules :: "transformer \<Rightarrow> rule list" where
  "packed_rules self = map (\<lambda>i. rules self ! i) (concat (map snd (rulepacks self)))"

text \<open>
  C2 (the code departs from the specification). For the document of one rule with two names,
  the packs hold the rule twice: their concatenation is not the rule sequence.
\<close>

theorem packs_repeat_rule:
  "init example_pformat example_re_compile doubled_doc = Inr doubled_transformer
   \<and> length (rules doubled_transformer) = 1
   \<and> packed_rules doubled_transformer = rules doubled_transformer @ rules doubled_transformer"
proof (intro conjI)
  show "init example_pformat example_re_compile doubled_doc = Inr doubled_transformer"
    by (rule doubled_init)
  show "length (rules doubled_transformer) = 1"
    by (simp add: doubled_transformer_def)
  show "packed_rules doubled_transformer = rules doubled_transformer @ rules doubled_transformer"
    by (simp add: doubled_transformer_def packed_rules_def)
qed

text \<open>
  What the packs hold in general: the position of every rule, in the order of the
  document, once for a rule without \<^verbatim>\<open>name\<close> and as many times as it has names for a rule
  with \<^verbatim>\<open>name\<close>. When every rule with \<^verbatim>\<open>name\<close> has one name, the packs concatenated are
  the rule sequence.
\<close>

definition copies :: "rule \<Rightarrow> nat" where
  "copies r = (case r_name r of None \<Rightarrow> 1 | Some ns \<Rightarrow> length ns)"

fun expected_refs :: "nat \<Rightarrow> rule list \<Rightarrow> nat list" where
  "expected_refs i [] = []"
| "expected_refs i (r # rs) = replicate (copies r) i @ expected_refs (Suc i) rs"

lemma pack_rules_contents:
  assumes "pack_rules rs i (packs, names, pack) = (packs', names', pack')"
      and "(names = {}) = (pack = [])"
  shows "concat (map snd packs') @ pack' = concat (map snd packs) @ pack @ expected_refs i rs
         \<and> (names' = {}) = (pack' = [])"
  using assms
proof (induction rs arbitrary: i packs names pack)
  case Nil
  then show ?case by simp
next
  case (Cons r rs)
  show ?case
  proof (cases "r_name r")
    case None
    let ?packs = "(if names \<noteq> {} then packs @ [(NameInNames, pack)] else packs) @ [(AlwaysTrue, [i])]"
    from Cons.prems(1) None
    have run: "pack_rules rs (Suc i) (?packs, {}, []) = (packs', names', pack')" by simp
    have c: "concat (map snd ?packs) = concat (map snd packs) @ pack @ [i]"
      using Cons.prems(2) by simp
    from Cons.IH [OF run] c None show ?thesis by (simp add: copies_def)
  next
    case (Some ns)
    from Cons.prems(1) Some
    have run: "pack_rules rs (Suc i) (packs, names \<union> set ns, pack @ replicate (length ns) i)
                 = (packs', names', pack')"
      by (simp add: add_names_eq)
    have inv: "(names \<union> set ns = {}) = (pack @ replicate (length ns) i = [])"
      using Cons.prems(2) by auto
    from Cons.IH [OF run inv] Some show ?thesis by (simp add: copies_def)
  qed
qed

lemma init_packs_contents:
  assumes "init pformat re_compile doc = Inr self"
  shows "concat (map snd (rulepacks self)) = expected_refs 0 (rules self)"
proof -
  from assms obtain rs where rs: "compile_rules pformat re_compile doc = Inr rs"
    by (auto simp: init_def split: sum.splits)
  obtain packs names' pack where pk: "pack_rules rs 0 ([], {}, []) = (packs, names', pack)"
    by (cases "pack_rules rs 0 ([], {}, [])") auto
  from assms rs pk have self:
    "self = \<lparr> rules = rs,
              rulepacks = (if names' \<noteq> {} then packs @ [(NameInNames, pack)] else packs),
              names_cell = names' \<rparr>"
    by (simp add: init_def)
  from pack_rules_contents [OF pk] have
    "concat (map snd packs) @ pack = expected_refs 0 rs" "(names' = {}) = (pack = [])"
    by simp_all
  then show ?thesis by (auto simp: self)
qed

lemma expected_refs_single:
  "list_all (\<lambda>r. copies r = 1) rs \<Longrightarrow> expected_refs i rs = [i..<i + length rs]"
proof (induction rs arbitrary: i)
  case Nil
  show ?case by simp
next
  case (Cons r rs)
  from Cons.prems have c: "copies r = 1" and d: "list_all (\<lambda>r. copies r = 1) rs"
    by simp_all
  have "i < i + Suc (length rs)" by simp
  then have a: "[i..<i + Suc (length rs)] = i # [Suc i..<i + Suc (length rs)]"
    by (rule upt_conv_Cons)
  have b: "i + Suc (length rs) = Suc i + length rs" by simp
  have "expected_refs i (r # rs) = i # [Suc i..<Suc i + length rs]"
    using c Cons.IH [OF d, of "Suc i"] by simp
  also have "\<dots> = [i..<i + Suc (length rs)]"
    unfolding a unfolding b ..
  finally show ?case by (simp del: upt_Suc)
qed

lemma init_packs_single_names:
  assumes "init pformat re_compile doc = Inr self"
      and "list_all (\<lambda>r. copies r = 1) (rules self)"
  shows "packed_rules self = rules self"
proof -
  have "concat (map snd (rulepacks self)) = [0..<length (rules self)]"
    using init_packs_contents [OF assms(1)] expected_refs_single [OF assms(2), of 0] by simp
  then show ?thesis by (simp add: packed_rules_def map_nth)
qed

subsection \<open>The current name as a replacement string\<close>

lemma parse_template_plain:
  "backslash \<notin> set s \<Longrightarrow> parse_template s = Some s"
  by (induction s) auto

lemma replace_dollar0_str_replace:
  "replace_dollar0 r t = str_replace ''$0'' r t"
  apply (induction r t rule: replace_dollar0.induct)
  subgoal by (subst str_replace.simps) auto
  subgoal by (subst str_replace.simps) auto
  subgoal by (subst str_replace.simps, subst str_replace.simps) auto
  done

text \<open>The name \<^verbatim>\<open>x\n\<close>: an \<^verbatim>\<open>x\<close>, a backslash and an \<^verbatim>\<open>n\<close>.\<close>

definition newline_name :: string where
  "newline_name = [CHR ''x'', backslash, CHR ''n'']"

text \<open>
  C4 (the code departs from the specification). A rule with \<^verbatim>\<open>setname: prefix-$0\<close> and no
  \<^verbatim>\<open>namepat\<close>, applied to the three-character name \<^verbatim>\<open>x\n\<close>, gives \<^verbatim>\<open>prefix-x\<close> followed by
  a newline character: \<^verbatim>\<open>dollar0.sub\<close> takes the name as a replacement template and
  expands the escape. The template with \<^verbatim>\<open>$0\<close> replaced by the name itself would end in
  the backslash and the \<^verbatim>\<open>n\<close>.
\<close>

theorem setname_backslash_name:
  "ApplyRule (blank_rule\<lparr>r_setname := Some ''prefix-$0''\<rparr>) newline_name ''1.0''
     = Inr (0, ''prefix-x'' @ [CHR 0x0A])
   \<and> str_replace ''$0'' newline_name ''prefix-$0'' = ''prefix-x'' @ [backslash, CHR ''n'']"
proof
  show "ApplyRule (blank_rule\<lparr>r_setname := Some ''prefix-$0''\<rparr>) newline_name ''1.0''
     = Inr (0, ''prefix-x'' @ [CHR 0x0A])"
    by (simp add: eval_defs newline_name_def parse_escape_def simple_escape_def is_digit_def)
  have "replace_dollar0 newline_name ''prefix-$0'' = ''prefix-x'' @ [backslash, CHR ''n'']"
    by (simp add: newline_name_def)
  then show "str_replace ''$0'' newline_name ''prefix-$0'' = ''prefix-x'' @ [backslash, CHR ''n'']"
    by (simp add: replace_dollar0_str_replace)
qed

text \<open>
  What the \<^verbatim>\<open>setname\<close> step does away from that input. A template is a sequence of
  characters and group references; when the pattern matches, every reference is filled
  with its group (with nothing for a group that took no part), and a reference to a group
  the pattern lacks raises \<^verbatim>\<open>IndexError\<close>. When there is no pattern or it does not match,
  and the name has no backslash, every \<^verbatim>\<open>$0\<close> is replaced by the name. The two examples
  of the specification come out as it says.
\<close>

function template_tokens :: "string \<Rightarrow> (char + nat) list" where
  "template_tokens [] = []"
| "template_tokens (c # cs) =
     (if c = CHR ''$'' \<and> takeWhile is_digit cs \<noteq> []
      then Inr (int_of_digits 10 (takeWhile is_digit cs)) # template_tokens (dropWhile is_digit cs)
      else Inl c # template_tokens cs)"
  by pat_completeness auto
termination
  by (relation "measure length") (auto simp: less_Suc_eq_le length_dropWhile_le)

definition fill_token :: "match \<Rightarrow> char + nat \<Rightarrow> string" where
  "fill_token m tok =
     (case tok of Inl c \<Rightarrow> [c] | Inr n \<Rightarrow> (case m ! n of None \<Rightarrow> [] | Some g \<Rightarrow> g))"

definition token_in_range :: "match \<Rightarrow> char + nat \<Rightarrow> bool" where
  "token_in_range m tok = (case tok of Inl c \<Rightarrow> True | Inr n \<Rightarrow> n < length m)"

lemma token_simps [simp]:
  "fill_token m (Inl c) = [c]"
  "fill_token m (Inr n) = (case m ! n of None \<Rightarrow> [] | Some g \<Rightarrow> g)"
  "token_in_range m (Inl c) = True"
  "token_in_range m (Inr n) = (n < length m)"
  by (simp_all add: fill_token_def token_in_range_def)

lemma dollarN_sub_tokens:
  "dollarN_sub m t =
     (if list_all (token_in_range m) (template_tokens t)
      then Inr (concat (map (fill_token m) (template_tokens t)))
      else Inl IndexError)"
proof (induction m t rule: dollarN_sub.induct)
  case (1 m)
  show ?case by simp
next
  case (2 m c cs)
  show ?case
  proof (cases "c = CHR ''$'' \<and> takeWhile is_digit cs \<noteq> []")
    case True
    show ?thesis
    proof (cases "int_of_digits 10 (takeWhile is_digit cs) < length m")
      case inside: True
      from "2.IH"(1) [OF True refl inside] True inside show ?thesis
        by (simp add: Let_def)
    next
      case False
      with True show ?thesis by (simp add: Let_def)
    qed
  next
    case False
    from "2.IH"(2) [OF False] False show ?thesis
      by auto
  qed
qed

lemma setname_plain_name:
  assumes "r_setname rule = Some template"
      and "(case r_namepat rule of None \<Rightarrow> None | Some rx \<Rightarrow> rx nm) = None"
      and "backslash \<notin> set nm"
  shows "setname_step rule nm = Inr (str_replace ''$0'' nm template)"
  using assms by (simp add: setname_step_def dollar0_sub_def replace_dollar0_str_replace)

lemma setname_matched:
  assumes "r_setname rule = Some template"
      and "r_namepat rule = Some rx" and "rx nm = Some m"
  shows "setname_step rule nm =
           (if list_all (token_in_range m) (template_tokens template)
            then Inr (concat (map (fill_token m) (template_tokens template)))
            else Inl IndexError)"
  using assms by (simp add: setname_step_def dollarN_sub_tokens)

lemma setname_examples:
  "ApplyRule (blank_rule\<lparr>r_namepat := Some (rx_match lib_rx), r_setname := Some ''$1''\<rparr>)
     ''libfoo'' ver = Inr (0, ''foo'')"
  "ApplyRule (blank_rule\<lparr>r_setname := Some ''prefix-$0''\<rparr>) ''foo'' ver
     = Inr (0, ''prefix-foo'')"
  "ApplyRule (blank_rule\<lparr>r_namepat := Some (rx_match lib_rx), r_setname := Some ''$2''\<rparr>)
     ''libfoo'' ver = Inl IndexError"
  by (simp_all add: eval_defs lib_rx_def rx_match_def is_digit_def int_of_digits_def digit_val_def)

subsection \<open>Process can raise\<close>

definition setname_doc :: "yaml_rule list" where
  "setname_doc = [blank_yaml\<lparr>y_setname := Some ''x''\<rparr>]"

definition setname_transformer :: transformer where
  "setname_transformer =
     \<lparr> rules = [blank_rule\<lparr>r_setname := Some ''x'', r_pretty := ''{setname: x}''\<rparr>],
       rulepacks = [(AlwaysTrue, [0])],
       names_cell = {} \<rparr>"

lemma setname_init:
  "init example_pformat example_re_compile setname_doc = Inr setname_transformer"
  by (simp add: init_def setname_doc_def setname_transformer_def compile_rule_def
        compile_field_def blank_yaml_def blank_rule_def example_pformat_def as_list_def)

text \<open>
  C5 (the code departs from the specification). The rule set \<^verbatim>\<open>[{setname: x}]\<close> is well formed,
  and the package name made of an \<^verbatim>\<open>a\<close> and a backslash is a string. \<^verbatim>\<open>Process\<close> raises on
  it: the name is handed to \<^verbatim>\<open>dollar0.sub\<close> as the replacement, and a replacement that ends
  in a backslash is an error of \<^verbatim>\<open>re\<close>. The count of the rule has gone up by then, and
  \<^verbatim>\<open>effname\<close> is left unset.
\<close>

theorem Process_raises:
  "init example_pformat example_re_compile setname_doc = Inr setname_transformer
   \<and> Process setname_transformer (example_package [CHR ''a'', backslash])
       = (Some TemplateError, example_package [CHR ''a'', backslash],
          setname_transformer\<lparr>rules := bump 0 (rules setname_transformer)\<rparr>)
   \<and> effname (example_package [CHR ''a'', backslash]) = None"
proof (intro conjI)
  show "init example_pformat example_re_compile setname_doc = Inr setname_transformer"
    by (rule setname_init)
  show "Process setname_transformer (example_package [CHR ''a'', backslash])
       = (Some TemplateError, example_package [CHR ''a'', backslash],
          setname_transformer\<lparr>rules := bump 0 (rules setname_transformer)\<rparr>)"
    by (simp add: setname_transformer_def eval_defs parse_escape_def bump_def)
  show "effname (example_package [CHR ''a'', backslash]) = None"
    by (simp add: example_package_def)
qed

end
